theory Spec2Isabelle
  imports Main
begin

section \<open>Text\<close>

text \<open>
  A Python \<open>str\<close> is a sequence of Unicode code points; it is modelled as a list of
  natural numbers, one per code point. \<open>ustr\<close> reads an ASCII literal.
\<close>

type_synonym ustring = "nat list"

definition ustr :: "string \<Rightarrow> ustring" where
  "ustr s = map of_char s"

definition EURO :: nat where
  "EURO = 8364"

text \<open>\<open>needle in hay\<close> on strings: \<open>needle\<close> occurs as a contiguous part of \<open>hay\<close>.\<close>

fun starts_with :: "'a list \<Rightarrow> 'a list \<Rightarrow> bool" where
  "starts_with [] hay = True"
| "starts_with (x # xs) [] = False"
| "starts_with (x # xs) (y # ys) = (x = y \<and> starts_with xs ys)"

fun contains :: "'a list \<Rightarrow> 'a list \<Rightarrow> bool" where
  "contains needle [] = (needle = [])"
| "contains needle (h # hay) = (starts_with needle (h # hay) \<or> contains needle hay)"

text \<open>
  The characters \<open>str.isspace\<close> accepts; \<open>str.strip()\<close> and the pattern class
  \<open>\s\<close> both use this set.
\<close>

definition py_isspace :: "nat \<Rightarrow> bool" where
  "py_isspace c =
     ((9 \<le> c \<and> c \<le> 13) \<or> (28 \<le> c \<and> c \<le> 32) \<or> c = 133 \<or> c = 160 \<or> c = 5760
      \<or> (8192 \<le> c \<and> c \<le> 8202) \<or> c = 8232 \<or> c = 8233 \<or> c = 8239 \<or> c = 8287
      \<or> c = 12288)"

definition strip :: "ustring \<Rightarrow> ustring" where
  "strip s = rev (dropWhile py_isspace (rev (dropWhile py_isspace s)))"

fun join_with :: "'a list \<Rightarrow> 'a list list \<Rightarrow> 'a list" where
  "join_with sep [] = []"
| "join_with sep [x] = x"
| "join_with sep (x # y # ys) = x @ sep @ join_with sep (y # ys)"

fun split_ws_acc :: "ustring \<Rightarrow> ustring \<Rightarrow> ustring list" where
  "split_ws_acc cur [] = (if cur = [] then [] else [rev cur])"
| "split_ws_acc cur (c # cs) =
     (if py_isspace c
      then (if cur = [] then split_ws_acc [] cs else rev cur # split_ws_acc [] cs)
      else split_ws_acc (c # cur) cs)"

definition split_ws :: "ustring \<Rightarrow> ustring list" where
  "split_ws s = split_ws_acc [] s"

section \<open>The libraries the program calls\<close>

text \<open>
  Python exceptions, each with its message. \<open>SystemExit\<close> derives from
  \<open>BaseException\<close> only; every other class here derives from \<open>Exception\<close>
  (\<open>HTTPError\<close> and \<open>RequestException\<close> are the classes of \<open>requests\<close>).
\<close>

datatype exn =
    SystemExit ustring
  | RuntimeError ustring
  | HTTPError ustring
  | RequestException ustring
  | TypeError ustring
  | AttributeError ustring
  | IndexError ustring

fun is_Exception :: "exn \<Rightarrow> bool" where
  "is_Exception (SystemExit m) = False"
| "is_Exception e = True"

fun exn_str :: "exn \<Rightarrow> ustring" where
  "exn_str (SystemExit m) = m"
| "exn_str (RuntimeError m) = m"
| "exn_str (HTTPError m) = m"
| "exn_str (RequestException m) = m"
| "exn_str (TypeError m) = m"
| "exn_str (AttributeError m) = m"
| "exn_str (IndexError m) = m"

text \<open>
  A parsed document of Beautiful Soup: strings and elements with a name, attributes and
  children. A string is an object of the class \<open>NavigableString\<close> or of one of its
  subclasses: a comment is a \<open>Comment\<close>, the body of a \<open>script\<close> element a
  \<open>Script\<close>, and so on. The object \<open>BeautifulSoup(html, "html.parser")\<close> returns is
  the root element. \<open>Text\<close> is a string of the class \<open>NavigableString\<close> itself, the
  text of the page.
\<close>

datatype string_class =
    NavigableString
  | CData
  | Comment
  | Declaration
  | Doctype
  | ProcessingInstruction
  | Stylesheet
  | Script
  | TemplateString
  | RubyTextString
  | RubyParenthesisString

datatype node =
    Str string_class ustring
  | Tag ustring "(ustring \<times> ustring) list" "node list"

abbreviation Text :: "ustring \<Rightarrow> node" where
  "Text \<equiv> Str NavigableString"

record response =
  url :: ustring
  status_code :: nat
  rtext :: ustring

record url_parts =
  scheme :: ustring
  netloc :: ustring
  path :: ustring
  params :: ustring
  query :: ustring
  fragment :: ustring

text \<open>
  What the program takes from its libraries and from the network, as parameters of
  the model:
  \<^item> \<open>casefold\<close> is \<open>str.casefold\<close>, \<open>is_digit\<close> the pattern class \<open>\d\<close> on \<open>str\<close>
    (both are tables of the Unicode database);
  \<^item> \<open>quote_plus\<close> is \<open>urllib.parse.quote_plus\<close>; \<open>unquote_plus\<close> is what
    \<open>parse_qs\<close> applies to a name or a value: \<open>+\<close> replaced by a space, then
    \<open>unquote\<close>;
  \<^item> \<open>urlparse\<close>, \<open>urlunparse\<close> and \<open>urljoin\<close> are those of \<open>urllib.parse\<close>;
  \<^item> \<open>html_parser\<close> is \<open>BeautifulSoup(html, "html.parser")\<close>;
  \<^item> \<open>http_get\<close> is \<open>sess.get(url, ...)\<close> of the session \<open>make_session\<close> builds, with
    redirects followed: given the requests made so far and the URL, a response or the
    exception raised;
  \<^item> \<open>http_error_text\<close> is the message of the \<open>HTTPError\<close> that
    \<open>Response.raise_for_status\<close> raises.
\<close>

record env =
  casefold :: "ustring \<Rightarrow> ustring"
  is_digit :: "nat \<Rightarrow> bool"
  quote_plus :: "ustring \<Rightarrow> ustring"
  unquote_plus :: "ustring \<Rightarrow> ustring"
  urlparse :: "ustring \<Rightarrow> url_parts"
  urlunparse :: "url_parts \<Rightarrow> ustring"
  urljoin :: "ustring \<Rightarrow> ustring \<Rightarrow> ustring"
  html_parser :: "ustring \<Rightarrow> node"
  http_get :: "ustring list \<Rightarrow> ustring \<Rightarrow> exn + response"
  http_error_text :: "response \<Rightarrow> ustring"

section \<open>Regular expressions\<close>

text \<open>
  The fragment of \<open>re\<close> that \<open>PRICE_REGEX\<close> uses, with the backtracking order of
  \<open>re\<close>: \<open>rx_match r s\<close> lists what is left of \<open>s\<close> after each way \<open>r\<close> matches a
  prefix of it, the preferred way first (greedy \<open>?\<close> and \<open>*\<close>, the left alternative
  before the right). \<open>rx_search\<close> is \<open>re.search(...).group(0)\<close>: the preferred match
  at the leftmost position that has one.
\<close>

datatype rx =
    Chr "nat \<Rightarrow> bool"
  | Seq rx rx
  | Alt rx rx
  | Opt rx
  | Star rx

fun rx_match :: "rx \<Rightarrow> ustring \<Rightarrow> ustring list" where
  "rx_match (Chr P) s = (case s of [] \<Rightarrow> [] | c # r \<Rightarrow> if P c then [r] else [])"
| "rx_match (Seq a b) s = concat (map (rx_match b) (rx_match a s))"
| "rx_match (Alt a b) s = rx_match a s @ rx_match b s"
| "rx_match (Opt a) s = rx_match a s @ [s]"
| "rx_match (Star a) s =
     concat (map (rx_match (Star a)) (filter (\<lambda>r. length r < length s) (rx_match a s))) @ [s]"

fun rx_search :: "rx \<Rightarrow> ustring \<Rightarrow> ustring option" where
  "rx_search r [] = (case rx_match r [] of rest # _ \<Rightarrow> Some [] | [] \<Rightarrow> None)"
| "rx_search r (c # t) =
     (case rx_match r (c # t) of
        rest # _ \<Rightarrow> Some (take (length (c # t) - length rest) (c # t))
      | [] \<Rightarrow> rx_search r t)"

text \<open>
  \<open>PRICE_REGEX\<close>, that is
  \<^verbatim>\<open>(?:\d{1,3}(?:[.,]\d{3})*|\d+)(?:[.,]\d{2})?\s*\<close> followed by the euro sign:
  \<open>\d{1,3}\<close> is a digit and, greedily, up to two more.
\<close>

definition PRICE_REGEX :: "env \<Rightarrow> rx" where
  "PRICE_REGEX E =
     (let d = Chr (is_digit E);
          sep = Chr (\<lambda>c. c = 46 \<or> c = 44)
      in Seq (Alt (Seq (Seq d (Opt (Seq d (Opt d)))) (Star (Seq sep (Seq d (Seq d d)))))
                  (Seq d (Star d)))
           (Seq (Opt (Seq sep (Seq d d)))
              (Seq (Star (Chr py_isspace)) (Chr (\<lambda>c. c = EURO)))))"

section \<open>Documents\<close>

text \<open>
  \<open>strings\<close> lists the strings below a node in document order, those of every class;
  \<open>strings_anc\<close> gives each with its class and its ancestors, the parent first and the
  root last, so that \<open>el.parent\<close> is the head of that list and \<open>cur.parent\<close> its
  tail's head. \<open>descendants\<close> lists the nodes below a node in document order.
\<close>

fun strings :: "node \<Rightarrow> ustring list" where
  "strings (Str k t) = [t]"
| "strings (Tag n a cs) = concat (map strings cs)"

fun strings_anc :: "node list \<Rightarrow> node \<Rightarrow> (ustring \<times> string_class \<times> node list) list" where
  "strings_anc anc (Str k t) = [(t, k, anc)]"
| "strings_anc anc (Tag n a cs) = concat (map (strings_anc (Tag n a cs # anc)) cs)"

fun descendants :: "node \<Rightarrow> node list" where
  "descendants (Str k t) = []"
| "descendants (Tag n a cs) = concat (map (\<lambda>c. c # descendants c) cs)"

fun children :: "node \<Rightarrow> node list" where
  "children (Str k t) = []"
| "children (Tag n a cs) = cs"

fun first_where :: "('a \<Rightarrow> bool) \<Rightarrow> 'a list \<Rightarrow> 'a option" where
  "first_where P [] = None"
| "first_where P (x # xs) = (if P x then Some x else first_where P xs)"

text \<open>
  \<open>soup.find(string=p)\<close> and \<open>tag.find_all(string=p)\<close>: a search by \<open>string\<close> goes
  through the strings of every class, comments and script bodies included, and gives
  \<open>p\<close> the string.
\<close>

definition find_string ::
    "(ustring \<Rightarrow> bool) \<Rightarrow> node \<Rightarrow> (ustring \<times> string_class \<times> node list) option" where
  "find_string p soup = first_where (\<lambda>(t, k, anc). p t) (strings_anc [] soup)"

definition find_all_strings :: "(ustring \<Rightarrow> bool) \<Rightarrow> node \<Rightarrow> ustring list" where
  "find_all_strings p tag = filter p (strings tag)"

text \<open>
  The text of an element, as \<open>tag.stripped_strings\<close> and \<open>tag.get_text\<close> read it
  (both through \<open>_all_strings\<close>), is made of the strings below it whose class is
  exactly one of \<open>tag.interesting_string_types\<close>. With the tree builder of
  \<open>html.parser\<close> (Beautiful Soup 4.10 and later) these are \<open>NavigableString\<close> and
  \<open>CData\<close>, except for the five elements of \<open>string_containers\<close>, whose text is
  made of the strings of their own class. So a comment belongs to the text of no
  element, and the body of a \<open>script\<close> to the text of that \<open>script\<close> element only.
  For a string, \<open>_all_strings\<close> gives the string itself when its class is
  \<open>NavigableString\<close> or \<open>CData\<close>.
\<close>

definition string_containers :: "ustring \<Rightarrow> string_class option" where
  "string_containers name =
     (if name = ustr ''rt'' then Some RubyTextString
      else if name = ustr ''rp'' then Some RubyParenthesisString
      else if name = ustr ''style'' then Some Stylesheet
      else if name = ustr ''script'' then Some Script
      else if name = ustr ''template'' then Some TemplateString
      else None)"

fun interesting_string_types :: "node \<Rightarrow> string_class list" where
  "interesting_string_types (Str k t) = [NavigableString, CData]"
| "interesting_string_types (Tag n a cs) =
     (case string_containers n of Some c \<Rightarrow> [c] | None \<Rightarrow> [NavigableString, CData])"

fun strings_of :: "string_class list \<Rightarrow> node \<Rightarrow> ustring list" where
  "strings_of types (Str k t) = (if k \<in> set types then [t] else [])"
| "strings_of types (Tag n a cs) = concat (map (strings_of types) cs)"

definition all_strings :: "node \<Rightarrow> ustring list" where
  "all_strings tag = strings_of (interesting_string_types tag) tag"

definition stripped_strings :: "node \<Rightarrow> ustring list" where
  "stripped_strings tag = filter (\<lambda>s. s \<noteq> []) (map strip (all_strings tag))"

definition get_text :: "node \<Rightarrow> ustring" where
  "get_text tag = join_with [32] (stripped_strings tag)"

text \<open>
  Elements by name and class: \<open>find("div", class_=c)\<close> accepts a \<open>div\<close> one of whose
  classes (the \<open>class\<close> attribute split at white space) is \<open>c\<close>.
\<close>

fun attr :: "node \<Rightarrow> ustring \<Rightarrow> ustring option" where
  "attr (Str c t) k = None"
| "attr (Tag n a cs) k = map_of a k"

fun is_tag :: "ustring \<Rightarrow> node \<Rightarrow> bool" where
  "is_tag name (Str k t) = False"
| "is_tag name (Tag n a cs) = (n = name)"

definition has_class :: "ustring \<Rightarrow> node \<Rightarrow> bool" where
  "has_class c tag = (case attr tag (ustr ''class'') of None \<Rightarrow> False | Some v \<Rightarrow> c \<in> set (split_ws v))"

section \<open>The price extractors\<close>

definition PRICE_TREND_ANCHORS :: "ustring list" where
  "PRICE_TREND_ANCHORS =
     [ustr ''tendance des prix'', ustr ''prix moyen'', ustr ''articles disponibles'',
      ustr ''price trend'', ustr ''average price'', ustr ''available items'',
      ustr ''preistrend'', ustr ''durchschnittspreis'', ustr ''verf'' @ [252] @ ustr ''gbare artikel'',
      ustr ''andamento del prezzo'', ustr ''prezzo medio'', ustr ''articoli disponibili'',
      ustr ''tendencia de precios'', ustr ''precio medio'', ustr ''art'' @ [237] @ ustr ''culos disponibles'',
      ustr ''prijstrend'', ustr ''gemiddelde prijs'', ustr ''beschikbare artikelen'']"

text \<open>
  \<open>smallest_common_ancestor_with_keywords\<close> walks from \<open>node\<close> up through its
  parents; its first argument here is that chain, \<open>node\<close> first.
\<close>

fun smallest_common_ancestor_with_keywords :: "env \<Rightarrow> node list \<Rightarrow> ustring list \<Rightarrow> node option" where
  "smallest_common_ancestor_with_keywords E [] keywords = None"
| "smallest_common_ancestor_with_keywords E (cur # up) keywords =
     (let text = casefold E (get_text cur)
      in if list_ex (\<lambda>kw. contains kw text) keywords then Some cur
         else smallest_common_ancestor_with_keywords E up keywords)"

text \<open>
  The prices of a container (lines 111 to 115): of each string with a euro sign,
  the part \<open>PRICE_REGEX\<close> finds, stripped.
\<close>

definition price_of :: "env \<Rightarrow> ustring \<Rightarrow> ustring option" where
  "price_of E s = map_option strip (rx_search (PRICE_REGEX E) s)"

definition container_prices :: "env \<Rightarrow> node \<Rightarrow> ustring list" where
  "container_prices E container =
     List.map_filter (price_of E) (find_all_strings (\<lambda>t. EURO \<in> set t) container)"

text \<open>
  The container the loop of \<open>extract_lowest_price\<close> computes for one anchor (lines 106
  to 110), when the anchor is found: \<open>el.parent or el\<close> is the parent when there is
  one, and the container is the smallest ancestor whose text holds any of the anchor
  phrases, or else that parent. The anchor is searched in the strings of every class,
  the text of an ancestor holds only those of its interesting classes: for an anchor
  found in a comment the walk goes past the parent unless another string below it
  holds an anchor phrase.
\<close>

definition anchor_container :: "env \<Rightarrow> node \<Rightarrow> ustring \<Rightarrow> node option" where
  "anchor_container E soup anchor =
     (case find_string (\<lambda>t. contains anchor (casefold E t)) soup of
        None \<Rightarrow> None
      | Some (el, k, anc) \<Rightarrow>
          if el = [] then None
          else (let chain = (case anc of [] \<Rightarrow> [Str k el] | p # up \<Rightarrow> p # up)
                in case smallest_common_ancestor_with_keywords E chain PRICE_TREND_ANCHORS of
                     Some container \<Rightarrow> Some container
                   | None \<Rightarrow> Some (hd chain)))"

text \<open>The loop over the anchors (lines 105 to 117), and the scan after it (118 to 121).\<close>

fun lowest_by_anchors :: "env \<Rightarrow> node \<Rightarrow> ustring list \<Rightarrow> ustring option" where
  "lowest_by_anchors E soup [] = None"
| "lowest_by_anchors E soup (anchor # rest) =
     (case anchor_container E soup anchor of
        None \<Rightarrow> lowest_by_anchors E soup rest
      | Some container \<Rightarrow>
          (case container_prices E container of
             [] \<Rightarrow> lowest_by_anchors E soup rest
           | p # ps \<Rightarrow> Some p))"

text \<open>
  An anchor that decides nothing in that loop: it is not found, or its container holds
  no price.
\<close>

definition priceless :: "env \<Rightarrow> node \<Rightarrow> ustring \<Rightarrow> bool" where
  "priceless E soup anchor =
     (case anchor_container E soup anchor of
        None \<Rightarrow> True
      | Some container \<Rightarrow> container_prices E container = [])"

fun first_price :: "env \<Rightarrow> ustring list \<Rightarrow> ustring option" where
  "first_price E [] = None"
| "first_price E (s # ss) =
     (case rx_search (PRICE_REGEX E) s of
        Some m \<Rightarrow> Some (strip m)
      | None \<Rightarrow> first_price E ss)"

definition lowest_in :: "env \<Rightarrow> node \<Rightarrow> ustring option" where
  "lowest_in E soup =
     (case lowest_by_anchors E soup PRICE_TREND_ANCHORS of
        Some p \<Rightarrow> Some p
      | None \<Rightarrow> first_price E (find_all_strings (\<lambda>t. EURO \<in> set t) soup))"

definition extract_lowest_price :: "env \<Rightarrow> ustring \<Rightarrow> ustring option" where
  "extract_lowest_price E html = lowest_in E (html_parser E html)"

text \<open>
  Python indexing \<open>xs[i]\<close>: a negative index counts from the end, and an index out of
  range raises \<open>IndexError\<close>.
\<close>

definition py_index :: "'a list \<Rightarrow> int \<Rightarrow> exn + 'a" where
  "py_index xs i =
     (if 0 \<le> i \<and> i < int (length xs) then Inr (xs ! nat i)
      else if i < 0 \<and> - int (length xs) \<le> i then Inr (xs ! nat (int (length xs) + i))
      else Inl (IndexError (ustr ''list index out of range'')))"

text \<open>Lines 134 to 136: the index of the median row among \<open>n\<close> rows.\<close>

definition median_index :: "nat \<Rightarrow> int" where
  "median_index n =
     (let median_index = (int n + 1) div 2 - 1
      in if median_index < 0 then 0 else median_index)"

text \<open>Lines 126 to 133: the rows of the offer table, when the document has one.\<close>

definition offer_rows :: "node \<Rightarrow> node list option" where
  "offer_rows soup =
     (case first_where (\<lambda>t. is_tag (ustr ''div'') t \<and> has_class (ustr ''table-body'') t)
             (descendants soup) of
        None \<Rightarrow> None
      | Some offers_container \<Rightarrow>
          (let rows = filter (is_tag (ustr ''div'')) (children offers_container);
               rows = (if rows = []
                       then filter (\<lambda>t. is_tag (ustr ''div'') t \<and> has_class (ustr ''article-row'') t)
                              (descendants offers_container)
                       else rows)
           in Some rows))"

text \<open>Lines 138 and 139: the first text of the row with a euro sign, stripped.\<close>

definition row_price :: "node \<Rightarrow> ustring option" where
  "row_price median_row =
     (let price_texts = map strip (filter (\<lambda>s. EURO \<in> set s) (stripped_strings median_row))
      in case price_texts of [] \<Rightarrow> None | p # ps \<Rightarrow> Some p)"

definition median_in :: "node \<Rightarrow> exn + ustring option" where
  "median_in soup =
     (case offer_rows soup of
        None \<Rightarrow> Inr None
      | Some rows \<Rightarrow>
          if rows = [] then Inr None
          else (case py_index rows (median_index (length rows)) of
                  Inl e \<Rightarrow> Inl e
                | Inr median_row \<Rightarrow> Inr (row_price median_row)))"

definition extract_median_price :: "env \<Rightarrow> ustring \<Rightarrow> exn + ustring option" where
  "extract_median_price E html = median_in (html_parser E html)"

section \<open>Composing filters onto a URL\<close>

text \<open>
  A Python \<open>dict\<close> keeps its keys in insertion order: it is a list of pairs with
  distinct keys. \<open>dict_set d k v\<close> is \<open>d[k] = v\<close>: the value of a key already there is
  replaced where it stands, a new key is added at the end.
\<close>

definition dict_set :: "('k \<times> 'v) list \<Rightarrow> 'k \<Rightarrow> 'v \<Rightarrow> ('k \<times> 'v) list" where
  "dict_set d k v =
     (if k \<in> fst ` set d then map (\<lambda>(k', x). if k' = k then (k', v) else (k', x)) d
      else d @ [(k, v)])"

text \<open>\<open>s.split(sep)\<close> for a separator of one character, and \<open>s.split("=", 1)\<close>.\<close>

fun split_on :: "'a \<Rightarrow> 'a list \<Rightarrow> 'a list list" where
  "split_on sep [] = [[]]"
| "split_on sep (x # xs) =
     (if x = sep then [] # split_on sep xs
      else (case split_on sep xs of [] \<Rightarrow> [[x]] | p # ps \<Rightarrow> (x # p) # ps))"

definition split_eq :: "ustring \<Rightarrow> (ustring \<times> ustring) option" where
  "split_eq name_value =
     (if 61 \<in> set name_value
      then Some (takeWhile (\<lambda>c. c \<noteq> 61) name_value, tl (dropWhile (\<lambda>c. c \<noteq> 61) name_value))
      else None)"

text \<open>
  \<open>urllib.parse.parse_qsl\<close> and \<open>parse_qs\<close> as \<open>add_filters\<close> calls them (blank values
  not kept, no strict parsing, separator \<open>&\<close>): a field with no \<open>=\<close> or with nothing
  after it is left out.
\<close>

definition parse_qsl :: "env \<Rightarrow> ustring \<Rightarrow> (ustring \<times> ustring) list" where
  "parse_qsl E qs =
     List.map_filter
       (\<lambda>name_value.
          case split_eq name_value of
            None \<Rightarrow> None
          | Some (n, v) \<Rightarrow> if v = [] then None else Some (unquote_plus E n, unquote_plus E v))
       (split_on 38 qs)"

definition dict_append :: "('k \<times> 'v list) list \<Rightarrow> 'k \<Rightarrow> 'v \<Rightarrow> ('k \<times> 'v list) list" where
  "dict_append d k v =
     (if k \<in> fst ` set d then map (\<lambda>(k', vs). if k' = k then (k', vs @ [v]) else (k', vs)) d
      else d @ [(k, [v])])"

definition parse_qs :: "env \<Rightarrow> ustring \<Rightarrow> (ustring \<times> ustring list) list" where
  "parse_qs E qs = foldl (\<lambda>d (k, v). dict_append d k v) [] (parse_qsl E qs)"

text \<open>
  \<open>urllib.parse.urlencode(query, doseq=True)\<close> on a dict of lists of strings: one
  field \<open>name=value\<close> for each value of each name, in the order of the dict
  (\<open>dict_pairs\<close>), joined by \<open>&\<close>.
\<close>

definition dict_pairs :: "('k \<times> 'v list) list \<Rightarrow> ('k \<times> 'v) list" where
  "dict_pairs d = concat (map (\<lambda>(k, vs). map (Pair k) vs) d)"

definition urlencode :: "env \<Rightarrow> (ustring \<times> ustring list) list \<Rightarrow> ustring" where
  "urlencode E d =
     join_with [38] (map (\<lambda>(k, v). quote_plus E k @ [61] @ quote_plus E v) (dict_pairs d))"

text \<open>The values of the fields named \<open>n\<close> in a list of fields, in their order.\<close>

definition values_of :: "'k \<Rightarrow> ('k \<times> 'v) list \<Rightarrow> 'v list" where
  "values_of n ps = map snd (filter (\<lambda>(k, v). k = n) ps)"

text \<open>Lines 69 to 72, on the query component: the dict after the loop, and its encoding.\<close>

definition merged_query :: "env \<Rightarrow> ustring \<Rightarrow> (ustring \<times> ustring) list \<Rightarrow> (ustring \<times> ustring list) list" where
  "merged_query E qs filters = foldl (\<lambda>d (k, v). dict_set d k [v]) (parse_qs E qs) filters"

definition add_filters :: "env \<Rightarrow> ustring \<Rightarrow> (ustring \<times> ustring) list \<Rightarrow> ustring" where
  "add_filters E base_url filters =
     (let parts = urlparse E base_url
      in urlunparse E (parts\<lparr>query := urlencode E (merged_query E (query parts) filters)\<rparr>))"

definition DEFAULT_FILTERS :: "(ustring \<times> ustring) list" where
  "DEFAULT_FILTERS =
     [(ustr ''sellerCountry'', ustr ''12''), (ustr ''language'', ustr ''2''),
      (ustr ''minCondition'', ustr ''2'')]"

definition median_filters :: "(ustring \<times> ustring) list" where
  "median_filters =
     [(ustr ''sellerCountry'', ustr ''12''), (ustr ''sellerType'', ustr ''1''),
      (ustr ''language'', ustr ''2''), (ustr ''minCondition'', ustr ''2'')]"

text \<open>
  What the theorem on composing twice asks of \<open>quote_plus\<close> and \<open>unquote_plus\<close> for
  a name or a value \<open>x\<close>: decoding the encoded form gives \<open>x\<close> back, the encoded
  form holds neither \<open>&\<close> nor \<open>=\<close>, and it is empty for the empty string only.
\<close>

definition round_trip :: "env \<Rightarrow> ustring \<Rightarrow> bool" where
  "round_trip E x =
     (unquote_plus E (quote_plus E x) = x
      \<and> 38 \<notin> set (quote_plus E x) \<and> 61 \<notin> set (quote_plus E x)
      \<and> (x = [] \<or> quote_plus E x \<noteq> []))"

section \<open>The product locator\<close>

text \<open>
  The body of a request as \<open>request.get_json()\<close> returns it. A number stands for
  both \<open>int\<close> and \<open>float\<close>: the program only tests it for zero.
\<close>

datatype json =
    JNull
  | JBool bool
  | JNum int
  | JStr ustring
  | JArr "json list"
  | JObj "(ustring \<times> json) list"

text \<open>\<open>quote_plus(card_id)\<close>: anything but a \<open>str\<close> raises \<open>TypeError\<close>.\<close>

definition py_quote_plus :: "env \<Rightarrow> json \<Rightarrow> exn + ustring" where
  "py_quote_plus E v =
     (case v of
        JStr s \<Rightarrow> Inr (quote_plus E s)
      | _ \<Rightarrow> Inl (TypeError (ustr ''quote_from_bytes() expected bytes'')))"

definition py_str :: "json \<Rightarrow> ustring" where
  "py_str v = (case v of JStr s \<Rightarrow> s | _ \<Rightarrow> [])"

definition SEARCH_BASE :: ustring where
  "SEARCH_BASE = ustr ''https://www.cardmarket.com/fr/Pokemon/Products/Search?category=-1&searchString=''"

definition PRODUCT_PATH :: ustring where
  "PRODUCT_PATH = ustr ''/Products/Singles/''"

text \<open>
  A request through the session: the answer of the network, and the request added to
  those made so far.
\<close>

definition sess_get :: "env \<Rightarrow> ustring \<Rightarrow> ustring list \<Rightarrow> (exn + response) \<times> ustring list" where
  "sess_get E u made = (http_get E made u, made @ [u])"

text \<open>
  The three selectors of lines 85 to 87. \<open>nodes_anc\<close> lists the elements and text
  nodes below a node in document order, each with its ancestors; \<open>select_one\<close> with
  \<open>Some name\<close> is \<open>name#ProductsTable a[href*='/Products/Singles/']\<close>, with \<open>None\<close>
  it is \<open>a[href*='/Products/Singles/']\<close>.
\<close>

fun nodes_anc :: "node list \<Rightarrow> node \<Rightarrow> (node \<times> node list) list" where
  "nodes_anc anc (Str k t) = []"
| "nodes_anc anc (Tag n a cs) =
     concat (map (\<lambda>c. (c, Tag n a cs # anc) # nodes_anc (Tag n a cs # anc) c) cs)"

definition product_link :: "node \<Rightarrow> bool" where
  "product_link t =
     (is_tag (ustr ''a'') t \<and>
      (case attr t (ustr ''href'') of None \<Rightarrow> False | Some h \<Rightarrow> contains PRODUCT_PATH h))"

definition in_products_table :: "ustring \<Rightarrow> node list \<Rightarrow> bool" where
  "in_products_table name anc =
     list_ex (\<lambda>x. is_tag name x \<and> attr x (ustr ''id'') = Some (ustr ''ProductsTable'')) anc"

definition select_one :: "ustring option \<Rightarrow> node \<Rightarrow> node option" where
  "select_one sel soup =
     map_option fst
       (first_where
          (\<lambda>(t, anc). product_link t \<and>
             (case sel of None \<Rightarrow> True | Some name \<Rightarrow> in_products_table name anc))
          (nodes_anc [] soup))"

fun first_product_link :: "env \<Rightarrow> node \<Rightarrow> ustring option list \<Rightarrow> ustring option" where
  "first_product_link E soup [] = None"
| "first_product_link E soup (sel # sels) =
     (case select_one sel soup of
        None \<Rightarrow> first_product_link E soup sels
      | Some a \<Rightarrow>
          (case attr a (ustr ''href'') of
             None \<Rightarrow> first_product_link E soup sels
           | Some h \<Rightarrow>
               if h = [] then first_product_link E soup sels
               else Some (urljoin E (ustr ''https://www.cardmarket.com'') h)))"

definition blocked_message :: ustring where
  "blocked_message = ustr ''403 Forbidden : acc'' @ [232] @ ustr ''s bloqu'' @ [233] @ ustr ''.''"

definition not_found_message :: "ustring \<Rightarrow> ustring" where
  "not_found_message card_id =
     ustr ''Aucun produit trouv'' @ [233] @ ustr '' pour '' @ [39] @ card_id @ [39] @ ustr ''.''"

definition find_product_url :: "env \<Rightarrow> json \<Rightarrow> ustring list \<Rightarrow> (exn + ustring) \<times> ustring list" where
  "find_product_url E card_id made =
     (case py_quote_plus E card_id of
        Inl e \<Rightarrow> (Inl e, made)
      | Inr quoted \<Rightarrow>
          (case sess_get E (SEARCH_BASE @ quoted) made of
             (Inl e, made') \<Rightarrow> (Inl e, made')
           | (Inr r, made') \<Rightarrow>
               (if contains PRODUCT_PATH (url r) then Inr (url r)
                else if status_code r = 403 then Inl (SystemExit blocked_message)
                else if 400 \<le> status_code r \<and> status_code r < 600
                  then Inl (HTTPError (http_error_text E r))
                else (case first_product_link E (html_parser E (rtext r))
                             [Some (ustr ''table''), Some (ustr ''div''), None] of
                        Some u \<Rightarrow> Inr u
                      | None \<Rightarrow> Inl (RuntimeError (not_found_message (py_str card_id)))),
                made')))"

section \<open>The pipeline and the endpoint\<close>

text \<open>\<open>x or "N/A"\<close> on the result of an extractor: \<open>None\<close> and the empty string are false.\<close>

definition or_NA :: "ustring option \<Rightarrow> ustring" where
  "or_NA x = (case x of None \<Rightarrow> ustr ''N/A'' | Some s \<Rightarrow> if s = [] then ustr ''N/A'' else s)"

definition get_prices_for_query ::
    "env \<Rightarrow> json \<Rightarrow> ustring list \<Rightarrow> (exn + ustring \<times> ustring \<times> ustring) \<times> ustring list" where
  "get_prices_for_query E card_id made =
     (case find_product_url E card_id made of
        (Inl e, made1) \<Rightarrow> (Inl e, made1)
      | (Inr product_url, made1) \<Rightarrow>
          (let filtered_url = add_filters E product_url DEFAULT_FILTERS
           in case sess_get E filtered_url made1 of
                (Inl e, made2) \<Rightarrow> (Inl e, made2)
              | (Inr r_lowest, made2) \<Rightarrow>
                  (let lowest = extract_lowest_price E (rtext r_lowest);
                       median_url = add_filters E product_url median_filters
                   in case sess_get E median_url made2 of
                        (Inl e, made3) \<Rightarrow> (Inl e, made3)
                      | (Inr r_median, made3) \<Rightarrow>
                          (case extract_median_price E (rtext r_median) of
                             Inl e \<Rightarrow> (Inl e, made3)
                           | Inr median \<Rightarrow>
                               (Inr (or_NA lowest, or_NA median, filtered_url), made3)))))"

text \<open>
  What a call of the view function \<open>get_prices\<close> ends with: the response it returns
  (status and JSON object), or an exception that leaves it.
\<close>

datatype outcome =
    Response nat "(ustring \<times> ustring) list"
  | Raised exn

text \<open>\<open>d.get(k)\<close> on the dict of a JSON object (of a repeated key the last value stands).\<close>

definition dict_get :: "('k \<times> 'v) list \<Rightarrow> 'k \<Rightarrow> 'v option" where
  "dict_get d k = map_of (rev d) k"

fun truthy :: "json \<Rightarrow> bool" where
  "truthy JNull = False"
| "truthy (JBool b) = b"
| "truthy (JNum n) = (n \<noteq> 0)"
| "truthy (JStr s) = (s \<noteq> [])"
| "truthy (JArr xs) = (xs \<noteq> [])"
| "truthy (JObj kvs) = (kvs \<noteq> [])"

definition missing_query :: outcome where
  "missing_query = Response 400 [(ustr ''error'', ustr ''Missing '' @ [39] @ ustr ''query'' @ [39] @ ustr '' field'')]"

definition get_prices :: "env \<Rightarrow> json \<Rightarrow> ustring list \<Rightarrow> outcome \<times> ustring list" where
  "get_prices E data made =
     (case data of
        JObj kvs \<Rightarrow>
          (case dict_get kvs (ustr ''query'') of
             None \<Rightarrow> (missing_query, made)
           | Some q \<Rightarrow>
               if \<not> truthy q then (missing_query, made)
               else (case get_prices_for_query E q made of
                       (Inr (lowest, median, u), made') \<Rightarrow>
                         (Response 200
                            [(ustr ''lowest'', lowest), (ustr ''median'', median), (ustr ''url'', u)],
                          made')
                     | (Inl e, made') \<Rightarrow>
                         if is_Exception e then (Response 500 [(ustr ''error'', exn_str e)], made')
                         else (Raised e, made')))
      | _ \<Rightarrow> (Raised (AttributeError (ustr ''object has no attribute get'')), made))"

section \<open>A library instance for evaluation\<close>

text \<open>
  The theorems below hold for every \<open>env\<close>. To evaluate the program on concrete
  inputs, \<open>ascii_env\<close> fixes one that agrees with the Python libraries on ASCII text:
  \<^item> \<open>casefold\<close> lowers the letters A to Z; \<open>\d\<close> is 0 to 9;
  \<^item> \<open>quote_plus\<close> keeps letters, digits and \<open>_.-~\<close>, writes a space as \<open>+\<close> and
    every other character as the \<open>%XX\<close> escapes of its UTF-8 bytes;
  \<^item> \<open>unquote_plus\<close> reads \<open>+\<close> as a space and an escape below \<open>%80\<close> as that
    character; it does not decode UTF-8, and reads any other escape as U+FFFD;
  \<^item> \<open>urlparse\<close> and \<open>urlunparse\<close> split and join URLs of the form
    \<open>scheme://netloc/path?query#fragment\<close>;
  \<^item> \<open>urljoin\<close> resolves a reference that starts with \<open>/\<close> against a base that is
    an origin;
  \<^item> the parser returns an empty document and the network refuses every request: a
    scenario sets \<open>html_parser\<close> and \<open>http_get\<close> to its own pages.
\<close>

definition ascii_lower :: "nat \<Rightarrow> nat" where
  "ascii_lower c = (if 65 \<le> c \<and> c \<le> 90 then c + 32 else c)"

definition ascii_digit :: "nat \<Rightarrow> bool" where
  "ascii_digit c = (48 \<le> c \<and> c \<le> 57)"

definition hex_digit :: "nat \<Rightarrow> nat" where
  "hex_digit n = (if n < 10 then 48 + n else 55 + n)"

definition hex_value :: "nat \<Rightarrow> nat option" where
  "hex_value c =
     (if 48 \<le> c \<and> c \<le> 57 then Some (c - 48)
      else if 65 \<le> c \<and> c \<le> 70 then Some (c - 55)
      else if 97 \<le> c \<and> c \<le> 102 then Some (c - 87)
      else None)"

definition utf8 :: "nat \<Rightarrow> nat list" where
  "utf8 c =
     (if c < 128 then [c]
      else if c < 2048 then [192 + c div 64, 128 + c mod 64]
      else if c < 65536 then [224 + c div 4096, 128 + c div 64 mod 64, 128 + c mod 64]
      else [240 + c div 262144, 128 + c div 4096 mod 64, 128 + c div 64 mod 64, 128 + c mod 64])"

definition unreserved :: "nat \<Rightarrow> bool" where
  "unreserved c =
     ((48 \<le> c \<and> c \<le> 57) \<or> (65 \<le> c \<and> c \<le> 90) \<or> (97 \<le> c \<and> c \<le> 122)
      \<or> c = 95 \<or> c = 46 \<or> c = 45 \<or> c = 126)"

definition ascii_quote_plus :: "ustring \<Rightarrow> ustring" where
  "ascii_quote_plus s =
     concat (map (\<lambda>c. if unreserved c then [c]
                       else if c = 32 then [43]
                       else concat (map (\<lambda>b. [37, hex_digit (b div 16), hex_digit (b mod 16)]) (utf8 c)))
                 s)"

fun ascii_unquote_plus :: "ustring \<Rightarrow> ustring" where
  "ascii_unquote_plus (c # h # l # s) =
     (if c = 37
      then (case (hex_value h, hex_value l) of
              (Some x, Some y) \<Rightarrow> (if x < 8 then 16 * x + y else 65533) # ascii_unquote_plus s
            | _ \<Rightarrow> 37 # ascii_unquote_plus (h # l # s))
      else (if c = 43 then 32 else c) # ascii_unquote_plus (h # l # s))"
| "ascii_unquote_plus (c # s) = (if c = 43 then 32 else c) # ascii_unquote_plus s"
| "ascii_unquote_plus [] = []"

definition split_at :: "nat \<Rightarrow> ustring \<Rightarrow> ustring \<times> ustring" where
  "split_at c s = (takeWhile (\<lambda>x. x \<noteq> c) s, drop 1 (dropWhile (\<lambda>x. x \<noteq> c) s))"

definition ascii_urlparse :: "ustring \<Rightarrow> url_parts" where
  "ascii_urlparse u =
     (let (before_fragment, frag) = split_at 35 u;
          (before_query, qs) = split_at 63 before_fragment;
          (sch, rest) = (if contains (ustr ''://'') before_query
                         then (takeWhile (\<lambda>x. x \<noteq> 58) before_query,
                               drop 1 (dropWhile (\<lambda>x. x \<noteq> 58) before_query))
                         else ([], before_query));
          (loc, p) = (if starts_with (ustr ''//'') rest
                      then (takeWhile (\<lambda>x. x \<noteq> 47) (drop 2 rest),
                            dropWhile (\<lambda>x. x \<noteq> 47) (drop 2 rest))
                      else ([], rest))
      in \<lparr>scheme = map ascii_lower sch, netloc = loc, path = p, params = [],
          query = qs, fragment = frag\<rparr>)"

definition ascii_urlunparse :: "url_parts \<Rightarrow> ustring" where
  "ascii_urlunparse parts =
     (if scheme parts = [] then [] else scheme parts @ [58])
     @ (if netloc parts = [] then [] else ustr ''//'' @ netloc parts)
     @ path parts
     @ (if params parts = [] then [] else 59 # params parts)
     @ (if query parts = [] then [] else 63 # query parts)
     @ (if fragment parts = [] then [] else 35 # fragment parts)"

definition ascii_env :: env where
  "ascii_env =
     \<lparr>casefold = map ascii_lower,
      is_digit = ascii_digit,
      quote_plus = ascii_quote_plus,
      unquote_plus = ascii_unquote_plus,
      urlparse = ascii_urlparse,
      urlunparse = ascii_urlunparse,
      urljoin = (\<lambda>base ref. base @ ref),
      html_parser = (\<lambda>html. Tag (ustr ''[document]'') [] []),
      http_get = (\<lambda>made u. Inl (RequestException (ustr ''no network''))),
      http_error_text = (\<lambda>r. ustr ''HTTP error'')\<rparr>"

section \<open>Example pages\<close>

text \<open>An offer table of three rows, priced 1,00, 2,50 and 10,00 euros in that order.\<close>

definition offer_row :: "string \<Rightarrow> node" where
  "offer_row p = Tag (ustr ''div'') [(ustr ''class'', ustr ''row article-row'')]
     [Tag (ustr ''span'') [] [Text (ustr ''seller'')],
      Tag (ustr ''span'') [] [Text (ustr p @ [32, EURO])]]"

definition offers_page :: node where
  "offers_page = Tag (ustr ''[document]'') []
     [Tag (ustr ''div'') [(ustr ''class'', ustr ''table-body'')]
        [offer_row ''1,00'', offer_row ''2,50'', offer_row ''10,00'']]"

text \<open>A network that answers every request with status 403 at the URL requested.\<close>

definition blocked_env :: env where
  "blocked_env = ascii_env\<lparr>http_get := (\<lambda>made u. Inr \<lparr>url = u, status_code = 403, rtext = []\<rparr>)\<rparr>"

text \<open>
  A network whose search ends, after redirects, on a log-in page that carries the
  product path in its query string only.
\<close>

definition login_url :: ustring where
  "login_url = ustr ''https://www.cardmarket.com/fr/Pokemon/Login?referer=/fr/Pokemon/Products/Singles/''"

definition login_env :: env where
  "login_env = ascii_env\<lparr>http_get := (\<lambda>made u. Inr \<lparr>url = login_url, status_code = 200, rtext = []\<rparr>)\<rparr>"

text \<open>A network whose search redirects to a product page.\<close>

definition product_url_example :: ustring where
  "product_url_example = ustr ''https://www.cardmarket.com/fr/Pokemon/Products/Singles/Base-Set/Charizard''"

definition redirect_env :: env where
  "redirect_env = ascii_env\<lparr>http_get := (\<lambda>made u. Inr \<lparr>url = product_url_example, status_code = 200, rtext = []\<rparr>)\<rparr>"

text \<open>
  Pages for the lowest-price extractor: one with a price and no anchor phrase, two that
  hold both the French and the English phrase for the price trend, each in a
  paragraph of its own, and one with an anchor phrase whose paragraph holds no price
  and a price elsewhere.
\<close>

definition shipping_page :: node where
  "shipping_page = Tag (ustr ''[document]'') []
     [Tag (ustr ''p'') [] [Text (ustr ''Livraison 5,00 '' @ [EURO])]]"

definition trend_fr :: node where
  "trend_fr = Tag (ustr ''p'') [] [Text (ustr ''Tendance des prix'')]"

definition trend_fr_priced :: node where
  "trend_fr_priced = Tag (ustr ''p'') [] [Text (ustr ''Tendance des prix 2,00 '' @ [EURO])]"

definition trend_en :: node where
  "trend_en = Tag (ustr ''p'') [] [Text (ustr ''Price trend 3,00 '' @ [EURO])]"

definition two_trends_page :: node where
  "two_trends_page = Tag (ustr ''[document]'') [] [Tag (ustr ''div'') [] [trend_fr, trend_en]]"

definition two_prices_page :: node where
  "two_prices_page = Tag (ustr ''[document]'') [] [Tag (ustr ''div'') [] [trend_fr_priced, trend_en]]"

definition fallback_page :: node where
  "fallback_page = Tag (ustr ''[document]'') []
     [trend_fr, Tag (ustr ''span'') [] [Text (ustr ''9,00 '' @ [EURO])]]"

text \<open>
  Two pages with an anchor phrase in a comment. In \<open>comment_page\<close> the comment is alone
  in its paragraph, beside a price and the paragraph of \<open>price trend\<close>; in
  \<open>comment_parent_page\<close> no text of the page holds an anchor phrase.
\<close>

definition comment_div :: node where
  "comment_div = Tag (ustr ''div'') []
     [Tag (ustr ''p'') [] [Str Comment (ustr '' prix moyen '')],
      Tag (ustr ''span'') [] [Text (ustr ''9,00 '' @ [EURO])],
      trend_en]"

definition comment_page :: node where
  "comment_page = Tag (ustr ''[document]'') [] [comment_div]"

definition comment_parent :: node where
  "comment_parent = Tag (ustr ''div'') []
     [Str Comment (ustr '' tendance des prix ''),
      Tag (ustr ''span'') [] [Text (ustr ''9,00 '' @ [EURO])]]"

definition comment_parent_page :: node where
  "comment_parent_page = Tag (ustr ''[document]'') []
     [Tag (ustr ''p'') [] [Text (ustr ''Livraison 5,00 '' @ [EURO])], comment_parent]"



text \<open>
  \<open>page_env page\<close> is \<open>ascii_env\<close> with a parser that returns \<open>page\<close> for every text,
  and a network every request of which ends with status 200 at \<open>product_url_example\<close>.
\<close>

definition page_env :: "node \<Rightarrow> env" where
  "page_env page =
     ascii_env\<lparr>html_parser := (\<lambda>html. page),
               http_get := (\<lambda>made u. Inr \<lparr>url = product_url_example, status_code = 200, rtext = []\<rparr>)\<rparr>"

section \<open>The median extractor\<close>

lemma median_index_unclamped: "0 < n \<Longrightarrow> median_index n = (int n + 1) div 2 - 1"
  unfolding median_index_def Let_def by auto

lemma median_index_bounds: "0 < n \<Longrightarrow> 0 \<le> median_index n \<and> median_index n < int n"
  unfolding median_index_def Let_def by auto

lemma py_index_median:
  assumes "rows \<noteq> []"
  shows "py_index rows (median_index (length rows)) = Inr (rows ! nat ((int (length rows) + 1) div 2 - 1))"
proof -
  have n: "0 < length rows" using assms by simp
  have b: "0 \<le> median_index (length rows) \<and> median_index (length rows) < int (length rows)"
    using median_index_bounds [OF n] .
  show ?thesis
    using b median_index_unclamped [OF n] by (simp add: py_index_def Let_def)
qed

lemma offer_rows_offers_page:
  "offer_rows offers_page = Some [offer_row ''1,00'', offer_row ''2,50'', offer_row ''10,00'']"
  by (simp add: offer_rows_def offers_page_def offer_row_def has_class_def split_ws_def ustr_def
      py_isspace_def)

lemma row_price_offer_row: "row_price (offer_row ''2,50'') = Some (ustr ''2,50'' @ [32, EURO])"
  by (simp add: row_price_def offer_row_def stripped_strings_def all_strings_def
      string_containers_def strip_def ustr_def py_isspace_def
      EURO_def)

text \<open>
  Claim C4. When the offer table has rows, the median extractor reads the row at index
  \<open>(n + 1) div 2 - 1\<close>, clamped below at 0, of its \<open>n\<close> rows; for 1, 2, 3, 4 and 5
  rows these are the indices 0, 0, 1, 1 and 2.
\<close>

theorem median_row_selected:
  assumes "offer_rows soup = Some rows" and "rows \<noteq> []"
  shows "median_index (length rows) = max 0 ((int (length rows) + 1) div 2 - 1)
       \<and> median_in soup = Inr (row_price (rows ! nat (max 0 ((int (length rows) + 1) div 2 - 1))))
       \<and> map median_index [1, 2, 3, 4, 5] = [0, 0, 1, 1, 2]"
proof -
  have n: "0 < length rows" using assms(2) by simp
  have m: "max 0 ((int (length rows) + 1) div 2 - 1) = (int (length rows) + 1) div 2 - 1"
  proof -
    have "1 \<le> int (length rows)" using n by linarith
    then have "0 \<le> (int (length rows) + 1) div 2 - 1" by presburger
    then show ?thesis by simp
  qed
  have a: "median_index (length rows) = max 0 ((int (length rows) + 1) div 2 - 1)"
    by (simp add: median_index_def Let_def max_def)
  have b: "median_in soup = Inr (row_price (rows ! nat (max 0 ((int (length rows) + 1) div 2 - 1))))"
    using assms py_index_median [OF assms(2)] by (simp add: median_in_def m)
  have c: "map median_index [1, 2, 3, 4, 5] = [0, 0, 1, 1, 2]"
    by (simp add: median_index_def)
  from a b c show ?thesis by simp
qed

theorem median_row_selected_witness:
  "offer_rows offers_page = Some [offer_row ''1,00'', offer_row ''2,50'', offer_row ''10,00'']
   \<and> median_index 3 = 1
   \<and> median_in offers_page = Inr (Some (ustr ''2,50'' @ [32, EURO]))"
  using median_row_selected [OF offer_rows_offers_page] row_price_offer_row
  by (simp add: offer_rows_offers_page)

lemma median_in_never_raises: "\<exists>m. median_in soup = Inr m"
proof (cases "offer_rows soup")
  case None
  then show ?thesis by (simp add: median_in_def)
next
  case (Some rows)
  show ?thesis
  proof (cases "rows = []")
    case True
    with Some show ?thesis by (simp add: median_in_def)
  next
    case False
    with Some py_index_median [OF False] show ?thesis by (simp add: median_in_def)
  qed
qed

text \<open>
  Claim C9. For a row list that is not empty, of length \<open>n\<close>, the index
  \<open>(n + 1) div 2 - 1\<close> is at least 0 and less than \<open>n\<close>: the clamp changes
  nothing, the indexing returns a row, and the median extractor never raises
  \<open>IndexError\<close>.
\<close>

theorem median_index_in_range:
  assumes "rows \<noteq> []"
  shows "0 \<le> (int (length rows) + 1) div 2 - 1
       \<and> (int (length rows) + 1) div 2 - 1 < int (length rows)
       \<and> median_index (length rows) = (int (length rows) + 1) div 2 - 1
       \<and> py_index rows (median_index (length rows))
           = Inr (rows ! nat ((int (length rows) + 1) div 2 - 1))
       \<and> (\<forall>(E :: env) html e. extract_median_price E html \<noteq> Inl e)"
proof -
  have n: "0 < length rows" using assms by simp
  have e: "\<forall>(E :: env) html e. extract_median_price E html \<noteq> Inl e"
  proof (intro allI)
    fix E :: env and html e
    obtain m where "median_in (html_parser E html) = Inr m"
      using median_in_never_raises by blast
    then show "extract_median_price E html \<noteq> Inl e"
      by (simp add: extract_median_price_def)
  qed
  show ?thesis
    using median_index_bounds [OF n] median_index_unclamped [OF n] py_index_median [OF assms] e
    by simp
qed

theorem median_index_in_range_witness:
  "[10, 20, 30, 40 :: nat] \<noteq> []
   \<and> median_index 4 = 1
   \<and> py_index [10, 20, 30, 40 :: nat] (median_index 4) = Inr 20"
  using median_index_in_range [of "[10, 20, 30, 40 :: nat]"]
  by (simp add: median_index_def py_index_def)


section \<open>The endpoint and the locator\<close>

lemma dict_get_filter_absent: "dict_get (filter (\<lambda>(k, v). k \<noteq> q) kvs) q = None"
  by (auto simp: dict_get_def map_of_eq_None_iff)

text \<open>
  Claim C10. A JSON body whose \<open>query\<close> field is the empty string gets the answer of
  a body without that field: status 400 with the body
  \<open>{"error": "Missing 'query' field"}\<close>, and no request is made (the requests made are
  those made before).
\<close>

theorem empty_query_rejected:
  assumes "dict_get kvs (ustr ''query'') = Some (JStr [])"
  shows "get_prices E (JObj kvs) made
           = (Response 400 [(ustr ''error'', ustr ''Missing '' @ [39] @ ustr ''query'' @ [39] @ ustr '' field'')], made)
       \<and> get_prices E (JObj kvs) made
           = get_prices E (JObj (filter (\<lambda>(k, v). k \<noteq> ustr ''query'') kvs)) made"
  using assms by (simp add: get_prices_def missing_query_def dict_get_filter_absent)

theorem empty_query_rejected_witness:
  "dict_get [(ustr ''query'', JStr [])] (ustr ''query'') = Some (JStr [])
   \<and> get_prices ascii_env (JObj [(ustr ''query'', JStr [])]) [] = (missing_query, [])
   \<and> get_prices ascii_env (JObj []) [] = (missing_query, [])"
proof -
  have d: "dict_get [(ustr ''query'', JStr [])] (ustr ''query'') = Some (JStr [])"
    by (simp add: dict_get_def)
  have f: "filter (\<lambda>(k, v). k \<noteq> ustr ''query'') [(ustr ''query'', JStr [])] = []"
    by simp
  from empty_query_rejected [OF d, of ascii_env "[]"] f d show ?thesis
    unfolding missing_query_def by auto
qed

text \<open>
  A search answered with status 403 at a URL without the product path makes the
  locator raise \<open>SystemExit\<close>, and \<open>except Exception\<close> in \<open>get_prices\<close> does not
  catch it: the view function returns no response.
\<close>

lemma blocked_raises_SystemExit:
  assumes "http_get E made (SEARCH_BASE @ quote_plus E q) = Inr r"
    and "\<not> contains PRODUCT_PATH (url r)" and "status_code r = 403"
  shows "find_product_url E (JStr q) made
           = (Inl (SystemExit blocked_message), made @ [SEARCH_BASE @ quote_plus E q])"
  using assms by (simp add: find_product_url_def py_quote_plus_def sess_get_def)

lemma blocked_leaves_get_prices:
  assumes "dict_get kvs (ustr ''query'') = Some (JStr q)" and "q \<noteq> []"
    and "http_get E made (SEARCH_BASE @ quote_plus E q) = Inr r"
    and "\<not> contains PRODUCT_PATH (url r)" and "status_code r = 403"
  shows "get_prices E (JObj kvs) made
           = (Raised (SystemExit blocked_message), made @ [SEARCH_BASE @ quote_plus E q])"
  using assms blocked_raises_SystemExit [OF assms(3-5)]
  by (simp add: get_prices_def get_prices_for_query_def)

lemma quote_Charizard: "ascii_quote_plus (ustr ''Charizard'') = ustr ''Charizard''"
  by (simp add: ascii_quote_plus_def ustr_def unreserved_def)

lemma no_product_path_in_search:
  "\<not> contains PRODUCT_PATH (SEARCH_BASE @ ustr ''Charizard'')"
  by (simp add: PRODUCT_PATH_def SEARCH_BASE_def ustr_def)

text \<open>
  Claim C1. A search answered with status 403 (at a URL that is no product page) is to
  fail with a Blocked error that reaches the caller as a response of status 500 with a
  JSON error message. On the query \<open>Charizard\<close>, with a network that answers 403, the
  locator raises \<open>SystemExit\<close> and the view function ends with that exception, not
  with a response.
\<close>

theorem blocked_search_not_a_response:
  "get_prices blocked_env (JObj [(ustr ''query'', JStr (ustr ''Charizard''))]) []
     = (Raised (SystemExit blocked_message), [SEARCH_BASE @ ustr ''Charizard''])"
proof -
  let ?r = "\<lparr>url = SEARCH_BASE @ ustr ''Charizard'', status_code = 403, rtext = []\<rparr>"
  have q: "quote_plus blocked_env (ustr ''Charizard'') = ustr ''Charizard''"
    by (simp add: blocked_env_def ascii_env_def quote_Charizard)
  have d: "dict_get [(ustr ''query'', JStr (ustr ''Charizard''))] (ustr ''query'')
             = Some (JStr (ustr ''Charizard''))"
    by (simp add: dict_get_def)
  have ne: "ustr ''Charizard'' \<noteq> []"
    by (simp add: ustr_def)
  have g: "http_get blocked_env [] (SEARCH_BASE @ quote_plus blocked_env (ustr ''Charizard'')) = Inr ?r"
    by (simp add: q) (simp add: blocked_env_def)
  have np: "\<not> contains PRODUCT_PATH (url ?r)"
    using no_product_path_in_search by simp
  have st: "status_code ?r = 403"
    by simp
  from blocked_leaves_get_prices [OF d ne g np st] show ?thesis
    by (simp add: q)
qed


lemma login_url_path:
  "path (ascii_urlparse login_url) = ustr ''/fr/Pokemon/Login''"
  by (simp add: ascii_urlparse_def login_url_def split_at_def ustr_def Let_def)

lemma login_url_has_pattern: "contains PRODUCT_PATH login_url"
  by (simp add: PRODUCT_PATH_def login_url_def ustr_def)

text \<open>
  Claim C7, as stated: the final URL of the search is returned at once only when its
  path matches the product pattern, whatever its query string. Here the final URL has
  the path \<open>/fr/Pokemon/Login\<close>, which does not hold the pattern, and the pattern in
  its query string; it is returned at once.
\<close>

theorem query_string_match_returned:
  "path (urlparse login_env login_url) = ustr ''/fr/Pokemon/Login''
   \<and> \<not> contains PRODUCT_PATH (path (urlparse login_env login_url))
   \<and> find_product_url login_env (JStr (ustr ''Charizard'')) []
       = (Inr login_url, [SEARCH_BASE @ ustr ''Charizard''])"
proof -
  have p: "path (urlparse login_env login_url) = ustr ''/fr/Pokemon/Login''"
    using login_url_path by (simp add: login_env_def ascii_env_def)
  have n: "\<not> contains PRODUCT_PATH (ustr ''/fr/Pokemon/Login'')"
    by (simp add: PRODUCT_PATH_def ustr_def)
  have q: "quote_plus login_env (ustr ''Charizard'') = ustr ''Charizard''"
    by (simp add: login_env_def ascii_env_def quote_Charizard)
  have g: "http_get login_env [] (SEARCH_BASE @ ustr ''Charizard'')
             = Inr \<lparr>url = login_url, status_code = 200, rtext = []\<rparr>"
    by (simp add: login_env_def)
  have f: "find_product_url login_env (JStr (ustr ''Charizard'')) []
             = (Inr login_url, [SEARCH_BASE @ ustr ''Charizard''])"
    using login_url_has_pattern by (simp add: find_product_url_def py_quote_plus_def sess_get_def q g)
  from p n f show ?thesis by simp
qed

text \<open>
  Claim C7, amended. After the search request, the final URL is returned at once if
  and only if the pattern \<open>/Products/Singles/\<close> occurs anywhere in that URL (path,
  query string or fragment): if it does, the locator returns that URL whatever the
  status and the body; if it does not, a URL is returned only by the later steps, that
  is for a status other than 403 and outside 400 to 599, as the first product link of
  the page.
\<close>

theorem search_redirect_returned:
  assumes "http_get E made (SEARCH_BASE @ quote_plus E q) = Inr r"
  shows "(contains PRODUCT_PATH (url r) \<longrightarrow>
            find_product_url E (JStr q) made = (Inr (url r), made @ [SEARCH_BASE @ quote_plus E q]))
       \<and> (\<not> contains PRODUCT_PATH (url r) \<longrightarrow>
            (\<forall>u. fst (find_product_url E (JStr q) made) = Inr u \<longrightarrow>
               status_code r \<noteq> 403 \<and> \<not> (400 \<le> status_code r \<and> status_code r < 600)
               \<and> first_product_link E (html_parser E (rtext r))
                    [Some (ustr ''table''), Some (ustr ''div''), None] = Some u))"
  using assms
  by (auto simp: find_product_url_def py_quote_plus_def sess_get_def split: option.splits)

theorem search_redirect_returned_witness:
  "http_get redirect_env [] (SEARCH_BASE @ quote_plus redirect_env (ustr ''Charizard''))
     = Inr \<lparr>url = product_url_example, status_code = 200, rtext = []\<rparr>
   \<and> contains PRODUCT_PATH product_url_example
   \<and> find_product_url redirect_env (JStr (ustr ''Charizard'')) []
       = (Inr product_url_example, [SEARCH_BASE @ ustr ''Charizard''])"
proof -
  let ?r = "\<lparr>url = product_url_example, status_code = 200, rtext = []\<rparr>"
  have q: "quote_plus redirect_env (ustr ''Charizard'') = ustr ''Charizard''"
    by (simp add: redirect_env_def ascii_env_def quote_Charizard)
  have g: "http_get redirect_env [] (SEARCH_BASE @ quote_plus redirect_env (ustr ''Charizard'')) = Inr ?r"
    by (simp add: redirect_env_def)
  have c: "contains PRODUCT_PATH product_url_example"
    by (simp add: PRODUCT_PATH_def product_url_example_def ustr_def)
  from search_redirect_returned [OF g] c q g show ?thesis
    by simp
qed


section \<open>Composing filters\<close>

subsection \<open>Dicts in insertion order\<close>

text \<open>
  The keys of a dict stay distinct under \<open>dict_set\<close> and \<open>dict_append\<close>, and a look-up
  in the result is the look-up before, updated at the key.
\<close>

lemma dict_set_keys:
  "map fst (dict_set d k v) = (if k \<in> fst ` set d then map fst d else map fst d @ [k])"
  by (auto simp: dict_set_def split_def)

lemma map_of_map_entry:
  "map_of (map (\<lambda>(k', x). if k' = k then (k', f x) else (k', x)) d) n
     = (if n = k then map_option f (map_of d n) else map_of d n)"
  by (induction d) (auto simp: split_def)

lemma map_of_snoc_new: "map_of d k = None \<Longrightarrow> map_of (d @ [(k, v)]) = (map_of d)(k \<mapsto> v)"
  by (rule ext) (simp add: map_add_def split: option.splits)

lemma in_keys_map_of: "k \<in> fst ` set d \<Longrightarrow> \<exists>x. map_of d k = Some x"
  by (metis map_of_eq_None_iff not_Some_eq)

lemma dict_set_map_of: "map_of (dict_set d k v) = (map_of d)(k \<mapsto> v)"
proof (cases "k \<in> fst ` set d")
  case True
  from in_keys_map_of [OF True] obtain x where x: "map_of d k = Some x" by blast
  have "map_of (map (\<lambda>(k', x). if k' = k then (k', v) else (k', x)) d) n = ((map_of d)(k \<mapsto> v)) n" for n
    using map_of_map_entry [of k "\<lambda>_. v" d n] x by simp
  then have "map_of (map (\<lambda>(k', x). if k' = k then (k', v) else (k', x)) d) = (map_of d)(k \<mapsto> v)"
    by (rule ext)
  with True show ?thesis by (simp add: dict_set_def)
next
  case False
  then have "map_of d k = None" by (simp add: map_of_eq_None_iff)
  from map_of_snoc_new [OF this] False show ?thesis by (simp add: dict_set_def)
qed

lemma dict_set_distinct: "distinct (map fst d) \<Longrightarrow> distinct (map fst (dict_set d k v))"
  by (auto simp: dict_set_keys)

lemma dict_append_keys:
  "map fst (dict_append d k v) = (if k \<in> fst ` set d then map fst d else map fst d @ [k])"
  by (auto simp: dict_append_def split_def)

lemma dict_append_distinct: "distinct (map fst d) \<Longrightarrow> distinct (map fst (dict_append d k v))"
  by (auto simp: dict_append_keys)

lemma dict_append_map_of:
  "map_of (dict_append d k v)
     = (map_of d)(k \<mapsto> (case map_of d k of None \<Rightarrow> [v] | Some vs \<Rightarrow> vs @ [v]))"
proof (cases "k \<in> fst ` set d")
  case True
  from in_keys_map_of [OF True] obtain ws where ws: "map_of d k = Some ws" by blast
  have "map_of (map (\<lambda>(k', vs). if k' = k then (k', vs @ [v]) else (k', vs)) d) n
          = ((map_of d)(k \<mapsto> ws @ [v])) n" for n
    using map_of_map_entry [of k "\<lambda>vs. vs @ [v]" d n] ws by simp
  then have "map_of (map (\<lambda>(k', vs). if k' = k then (k', vs @ [v]) else (k', vs)) d)
          = (map_of d)(k \<mapsto> ws @ [v])"
    by (rule ext)
  with True ws show ?thesis by (simp add: dict_append_def)
next
  case False
  then have n: "map_of d k = None" by (simp add: map_of_eq_None_iff)
  from map_of_snoc_new [OF n] False n show ?thesis by (simp add: dict_append_def)
qed




lemma values_of_simps:
  "values_of n [] = []"
  "values_of n ((k, v) # ps) = (if k = n then v # values_of n ps else values_of n ps)"
  by (simp_all add: values_of_def)

lemma filter_name_values: "filter (\<lambda>(k, v). k = n) ps = map (Pair n) (values_of n ps)"
proof (induction ps)
  case Nil
  show ?case by (simp add: values_of_simps)
next
  case (Cons p ps)
  obtain k v where p: "p = (k, v)" by (cases p)
  from Cons.IH show ?case by (simp add: p values_of_simps)
qed

lemma foldl_append_distinct:
  "distinct (map fst d) \<Longrightarrow> distinct (map fst (foldl (\<lambda>d (k, v). dict_append d k v) d ps))"
proof (induction ps arbitrary: d)
  case Nil
  then show ?case by simp
next
  case (Cons p ps)
  obtain k v where p: "p = (k, v)" by (cases p)
  from Cons.prems have "distinct (map fst (dict_append d k v))" by (rule dict_append_distinct)
  from Cons.IH [OF this] show ?case by (simp add: p)
qed

lemma foldl_append_map_of:
  "map_of (foldl (\<lambda>d (k, v). dict_append d k v) d ps) n
     = (case map_of d n of
          None \<Rightarrow> if values_of n ps = [] then None else Some (values_of n ps)
        | Some vs \<Rightarrow> Some (vs @ values_of n ps))"
proof (induction ps arbitrary: d)
  case Nil
  show ?case by (cases "map_of d n") (simp_all add: values_of_simps)
next
  case (Cons p ps)
  obtain k v where p: "p = (k, v)" by (cases p)
  let ?f = "\<lambda>d (k, v). dict_append d k v"
  have unfold: "map_of (foldl ?f d (p # ps)) n = map_of (foldl ?f (dict_append d k v) ps) n"
    by (simp add: p)
  have ih: "map_of (foldl ?f (dict_append d k v) ps) n
      = (case map_of (dict_append d k v) n of
           None \<Rightarrow> if values_of n ps = [] then None else Some (values_of n ps)
         | Some vs \<Rightarrow> Some (vs @ values_of n ps))"
    by (rule Cons.IH)
  show ?case
  proof (cases "k = n")
    case True
    then have vo: "values_of n (p # ps) = v # values_of n ps"
      by (simp add: p values_of_simps)
    show ?thesis
    proof (cases "map_of d n")
      case None
      with True have m: "map_of (dict_append d k v) n = Some [v]" by (simp add: dict_append_map_of)
      show ?thesis unfolding unfold ih m vo None by simp
    next
      case (Some ws)
      with True have m: "map_of (dict_append d k v) n = Some (ws @ [v])"
        by (simp add: dict_append_map_of)
      show ?thesis unfolding unfold ih m vo Some by simp
    qed
  next
    case False
    then have m: "map_of (dict_append d k v) n = map_of d n" by (simp add: dict_append_map_of)
    have vo: "values_of n (p # ps) = values_of n ps"
      using False by (simp add: p values_of_simps)
    show ?thesis unfolding unfold ih m vo ..
  qed
qed

lemma parse_qs_distinct: "distinct (map fst (parse_qs E qs))"
  unfolding parse_qs_def by (rule foldl_append_distinct) simp

lemma parse_qs_lookup:
  "map_of (parse_qs E qs) n
     = (if values_of n (parse_qsl E qs) = [] then None else Some (values_of n (parse_qsl E qs)))"
  unfolding parse_qs_def by (simp add: foldl_append_map_of)

lemma dict_pairs_filter:
  assumes "distinct (map fst d)"
  shows "filter (\<lambda>(k, v). k = n) (dict_pairs d)
           = (case map_of d n of None \<Rightarrow> [] | Some vs \<Rightarrow> map (Pair n) vs)"
  using assms
proof (induction d)
  case Nil
  then show ?case by (simp add: dict_pairs_def)
next
  case (Cons e d)
  obtain k vs where e: "e = (k, vs)" by (cases e)
  from Cons.prems e have k: "k \<notin> fst ` set d" and d: "distinct (map fst d)" by auto
  from k have nk: "map_of d k = None" by (simp add: map_of_eq_None_iff)
  have split: "dict_pairs ((k, vs) # d) = map (Pair k) vs @ dict_pairs d"
    by (simp add: dict_pairs_def)
  have own: "filter (\<lambda>(k', v). k' = n) (map (Pair k) vs) = (if k = n then map (Pair k) vs else [])"
    by (induction vs) auto
  note ih = Cons.IH [OF d]
  show ?case
  proof (cases "k = n")
    case True
    with nk ih have "filter (\<lambda>(k, v). k = n) (dict_pairs d) = []" by simp
    with True own show ?thesis unfolding e split by simp
  next
    case False
    with own ih show ?thesis unfolding e split by simp
  qed
qed

lemma foldl_set_distinct:
  "distinct (map fst d) \<Longrightarrow> distinct (map fst (foldl (\<lambda>d (k, v). dict_set d k [v]) d fs))"
  by (induction fs arbitrary: d) (auto simp: dict_set_distinct)

lemma dict_get_Cons:
  "dict_get ((k, v) # fs) n
     = (case dict_get fs n of Some x \<Rightarrow> Some x | None \<Rightarrow> if k = n then Some v else None)"
  by (simp add: dict_get_def map_add_def split: option.splits)

lemma foldl_set_map_of:
  "map_of (foldl (\<lambda>d (k, v). dict_set d k [v]) d fs) n
     = (case dict_get fs n of None \<Rightarrow> map_of d n | Some v \<Rightarrow> Some [v])"
proof (induction fs arbitrary: d)
  case Nil
  then show ?case by (simp add: dict_get_def)
next
  case (Cons f fs)
  obtain k v where f: "f = (k, v)" by (cases f)
  have "map_of (foldl (\<lambda>d (k, v). dict_set d k [v]) d (f # fs)) n
      = (case dict_get fs n of None \<Rightarrow> map_of (dict_set d k [v]) n | Some v \<Rightarrow> Some [v])"
    by (simp add: f Cons.IH)
  also have "\<dots> = (case dict_get (f # fs) n of None \<Rightarrow> map_of d n | Some v \<Rightarrow> Some [v])"
    by (simp add: f dict_get_Cons dict_set_map_of split: option.splits)
  finally show ?case .
qed

lemma dict_get_None: "dict_get fs n = None \<longleftrightarrow> n \<notin> fst ` set fs"
  by (simp add: dict_get_def map_of_eq_None_iff)


lemma map_filter_member: "y \<in> set (List.map_filter g xs) \<longleftrightarrow> (\<exists>x\<in>set xs. g x = Some y)"
  by (induction xs) (auto simp: map_filter_simps split: option.splits)

text \<open>
  The fields \<open>parse_qsl\<close> reads: those written \<open>name=value\<close> with a value that is
  not empty, decoded.
\<close>

lemma parse_qsl_member:
  "kv \<in> set (parse_qsl E qs) \<longleftrightarrow>
     (\<exists>f\<in>set (split_on 38 qs). \<exists>n v. split_eq f = Some (n, v) \<and> v \<noteq> []
        \<and> kv = (unquote_plus E n, unquote_plus E v))"
proof -
  let ?g = "\<lambda>name_value.
          case split_eq name_value of
            None \<Rightarrow> None
          | Some (n, v) \<Rightarrow> if v = [] then None else Some (unquote_plus E n, unquote_plus E v)"
  have "?g f = Some kv \<longleftrightarrow>
      (\<exists>n v. split_eq f = Some (n, v) \<and> v \<noteq> [] \<and> kv = (unquote_plus E n, unquote_plus E v))" for f
    by (auto split: option.splits if_splits)
  then show ?thesis by (simp add: parse_qsl_def map_filter_member)
qed

lemma merged_query_distinct: "distinct (map fst (merged_query E qs fs))"
  unfolding merged_query_def by (rule foldl_set_distinct) (rule parse_qs_distinct)

lemma merged_query_lookup:
  "map_of (merged_query E qs fs) n
     = (case dict_get fs n of
          None \<Rightarrow> if values_of n (parse_qsl E qs) = [] then None
                  else Some (values_of n (parse_qsl E qs))
        | Some v \<Rightarrow> Some [v])"
  unfolding merged_query_def by (simp add: foldl_set_map_of parse_qs_lookup split: option.splits)

lemma merged_query_untouched:
  assumes "n \<notin> fst ` set fs"
  shows "filter (\<lambda>(k, v). k = n) (dict_pairs (merged_query E qs fs))
           = filter (\<lambda>(k, v). k = n) (parse_qsl E qs)"
proof -
  from assms have "dict_get fs n = None" by (simp add: dict_get_None)
  then show ?thesis
    by (simp add: dict_pairs_filter [OF merged_query_distinct] merged_query_lookup
        filter_name_values [of n "parse_qsl E qs"])
qed

lemma merged_query_replaced:
  assumes "dict_get fs k = Some v"
  shows "filter (\<lambda>(k', v'). k' = k) (dict_pairs (merged_query E qs fs)) = [(k, v)]"
  using assms by (simp add: dict_pairs_filter [OF merged_query_distinct] merged_query_lookup)

text \<open>
  Claim C3, amended. The query of the composed URL encodes the fields
  \<open>dict_pairs (merged_query ...)\<close>, joined by \<open>&\<close>. For a name that is not in the
  FilterSet they are the fields of that name that \<open>parse_qsl\<close> reads from the query of
  the URL, with their values and in their order; for a name of the FilterSet there is
  exactly one field, with the filter value. \<open>parse_qsl\<close> leaves out a field with an
  empty value or without \<open>=\<close>: such a parameter of the URL is not preserved.
\<close>

theorem filters_merge_query:
  "add_filters E base_url fs
     = urlunparse E ((urlparse E base_url)
         \<lparr>query := join_with [38]
            (map (\<lambda>(k, v). quote_plus E k @ [61] @ quote_plus E v)
               (dict_pairs (merged_query E (query (urlparse E base_url)) fs)))\<rparr>)
   \<and> (\<forall>n. n \<notin> fst ` set fs \<longrightarrow>
          filter (\<lambda>(k, v). k = n) (dict_pairs (merged_query E (query (urlparse E base_url)) fs))
            = filter (\<lambda>(k, v). k = n) (parse_qsl E (query (urlparse E base_url))))
   \<and> (\<forall>k v. dict_get fs k = Some v \<longrightarrow>
          filter (\<lambda>(k', v'). k' = k) (dict_pairs (merged_query E (query (urlparse E base_url)) fs))
            = [(k, v)])"
  using merged_query_untouched merged_query_replaced
  by (simp add: add_filters_def Let_def urlencode_def)


subsection \<open>Reading an encoded query\<close>

lemma split_on_not_Nil: "split_on sep xs \<noteq> []"
  by (induction xs) (auto split: list.splits)

lemma split_on_append:
  "sep \<notin> set f \<Longrightarrow>
     split_on sep (f @ rest) = (f @ hd (split_on sep rest)) # tl (split_on sep rest)"
proof (induction f)
  case Nil
  then show ?case using split_on_not_Nil [of sep rest] by simp
next
  case (Cons x f)
  then have "split_on sep (f @ rest) = (f @ hd (split_on sep rest)) # tl (split_on sep rest)"
    by simp
  with Cons.prems show ?case by auto
qed

lemma split_on_no_sep: "sep \<notin> set f \<Longrightarrow> split_on sep f = [f]"
  using split_on_append [of sep f "[]"] by simp

lemma split_on_join:
  "fs \<noteq> [] \<Longrightarrow> \<forall>f\<in>set fs. sep \<notin> set f \<Longrightarrow> split_on sep (join_with [sep] fs) = fs"
proof (induction "[sep]" fs rule: join_with.induct)
  case 1
  then show ?case by simp
next
  case (2 x)
  then show ?case by (simp add: split_on_no_sep)
next
  case (3 x y ys)
  from "3.prems" have x: "sep \<notin> set x" and rest: "\<forall>f\<in>set (y # ys). sep \<notin> set f" by auto
  from "3.hyps" rest have ih: "split_on sep (join_with [sep] (y # ys)) = y # ys" by simp
  have "split_on sep (x @ sep # join_with [sep] (y # ys))
      = (x @ hd (split_on sep (sep # join_with [sep] (y # ys))))
        # tl (split_on sep (sep # join_with [sep] (y # ys)))"
    using x by (rule split_on_append)
  with ih show ?case by simp
qed

lemma field_at_equals:
  "61 \<notin> set qk \<Longrightarrow>
     takeWhile (\<lambda>c. c \<noteq> 61) (qk @ 61 # qv) = qk \<and> dropWhile (\<lambda>c. c \<noteq> 61) (qk @ 61 # qv) = 61 # qv"
  by (induction qk) auto

lemma split_eq_field: "61 \<notin> set qk \<Longrightarrow> split_eq (qk @ [61] @ qv) = Some (qk, qv)"
  using field_at_equals [of qk qv] by (simp add: split_eq_def)

lemma map_filter_inverse:
  "\<forall>p\<in>set ps. g (enc p) = Some p \<Longrightarrow> List.map_filter g (map enc ps) = ps"
  by (induction ps) (simp_all add: map_filter_simps)

lemma parse_qsl_urlencode:
  assumes "\<forall>kv\<in>set (dict_pairs d). round_trip E (fst kv) \<and> round_trip E (snd kv) \<and> snd kv \<noteq> []"
  shows "parse_qsl E (urlencode E d) = dict_pairs d"
proof (cases "dict_pairs d = []")
  case True
  then show ?thesis
    by (simp add: parse_qsl_def urlencode_def map_filter_simps split_eq_def)
next
  case False
  let ?enc = "\<lambda>(k, v). quote_plus E k @ [61] @ quote_plus E v"
  let ?g = "\<lambda>name_value.
          case split_eq name_value of
            None \<Rightarrow> None
          | Some (n, v) \<Rightarrow> if v = [] then None else Some (unquote_plus E n, unquote_plus E v)"
  have no_amp: "\<forall>f\<in>set (map ?enc (dict_pairs d)). 38 \<notin> set f"
    using assms by (auto simp: round_trip_def)
  from False have "map ?enc (dict_pairs d) \<noteq> []" by simp
  from split_on_join [OF this no_amp]
  have fields: "split_on 38 (urlencode E d) = map ?enc (dict_pairs d)"
    by (simp add: urlencode_def)
  have each: "\<forall>p\<in>set (dict_pairs d). ?g (?enc p) = Some p"
  proof
    fix p assume p: "p \<in> set (dict_pairs d)"
    obtain k v where kv: "p = (k, v)" by (cases p)
    from assms p kv have rk: "round_trip E k" and rv: "round_trip E v" and v: "v \<noteq> []" by auto
    from rk have "split_eq (quote_plus E k @ [61] @ quote_plus E v) = Some (quote_plus E k, quote_plus E v)"
      by (intro split_eq_field) (simp add: round_trip_def)
    moreover from rv v have "quote_plus E v \<noteq> []" by (simp add: round_trip_def)
    ultimately show "?g (?enc p) = Some p"
      using rk rv by (simp add: kv round_trip_def)
  qed
  show ?thesis
    unfolding parse_qsl_def fields by (rule map_filter_inverse) (rule each)
qed

subsection \<open>Building the dict again\<close>

lemma map_unchanged: "\<forall>x\<in>set xs. f x = x \<Longrightarrow> map f xs = xs"
  by (induction xs) simp_all

lemma dict_append_last:
  assumes "k \<notin> fst ` set acc"
  shows "dict_append (acc @ [(k, ws)]) k v = acc @ [(k, ws @ [v])]"
proof -
  have "map (\<lambda>(k', vs). if k' = k then (k', vs @ [v]) else (k', vs)) acc = acc"
    using assms by (intro map_unchanged) force
  then show ?thesis by (simp add: dict_append_def)
qed

lemma foldl_append_pairs:
  "k \<notin> fst ` set acc \<Longrightarrow>
     foldl (\<lambda>d (k, v). dict_append d k v) (acc @ [(k, ws)]) (map (Pair k) vs) = acc @ [(k, ws @ vs)]"
  by (induction vs arbitrary: ws) (simp_all add: dict_append_last)

lemma foldl_append_first:
  assumes "k \<notin> fst ` set acc" and "vs \<noteq> []"
  shows "foldl (\<lambda>d (k, v). dict_append d k v) acc (map (Pair k) vs) = acc @ [(k, vs)]"
proof -
  from assms(2) obtain v vs' where vs: "vs = v # vs'" by (cases vs) auto
  from assms(1) have "dict_append acc k v = acc @ [(k, [v])]" by (simp add: dict_append_def)
  with foldl_append_pairs [OF assms(1), of "[v]" vs'] show ?thesis by (simp add: vs)
qed

lemma foldl_append_dict_pairs:
  assumes "distinct (map fst d)" and "\<forall>e\<in>set d. snd e \<noteq> []"
    and "fst ` set acc \<inter> fst ` set d = {}"
  shows "foldl (\<lambda>d (k, v). dict_append d k v) acc (dict_pairs d) = acc @ d"
  using assms
proof (induction d arbitrary: acc)
  case Nil
  then show ?case by (simp add: dict_pairs_def)
next
  case (Cons e d)
  obtain k vs where e: "e = (k, vs)" by (cases e)
  from Cons.prems e have k: "k \<notin> fst ` set acc" and vs: "vs \<noteq> []"
    and d: "distinct (map fst d)" and ne: "\<forall>e\<in>set d. snd e \<noteq> []"
    and kd: "k \<notin> fst ` set d" and disj: "fst ` set acc \<inter> fst ` set d = {}"
    by auto
  have split: "dict_pairs ((k, vs) # d) = map (Pair k) vs @ dict_pairs d"
    by (simp add: dict_pairs_def)
  from kd disj have "fst ` set (acc @ [(k, vs)]) \<inter> fst ` set d = {}" by auto
  from Cons.IH [OF d ne this] foldl_append_first [OF k vs]
  show ?case unfolding e split by simp
qed

lemma parse_qs_urlencode:
  assumes "distinct (map fst d)" and "\<forall>e\<in>set d. snd e \<noteq> []"
    and "\<forall>kv\<in>set (dict_pairs d). round_trip E (fst kv) \<and> round_trip E (snd kv) \<and> snd kv \<noteq> []"
  shows "parse_qs E (urlencode E d) = d"
  using foldl_append_dict_pairs [OF assms(1,2), of "[]"] parse_qsl_urlencode [OF assms(3)]
  by (simp add: parse_qs_def)

subsection \<open>Setting the filters again\<close>

lemma assoc_list_eq:
  "map fst xs = map fst ys \<Longrightarrow> distinct (map fst xs) \<Longrightarrow> \<forall>k. map_of xs k = map_of ys k
     \<Longrightarrow> xs = ys"
proof (induction xs arbitrary: ys)
  case Nil
  then show ?case by simp
next
  case (Cons x xs)
  from Cons.prems(1) obtain y ys' where ys: "ys = y # ys'" and f: "fst x = fst y"
    and keys: "map fst xs = map fst ys'"
    by (cases ys) auto
  from Cons.prems(3) [rule_format, of "fst x"] f ys have xy: "x = y"
    by (cases x, cases y) simp
  from Cons.prems(2) have nx: "fst x \<notin> fst ` set xs" and dx: "distinct (map fst xs)" by auto
  from nx keys have ny: "fst x \<notin> fst ` set ys'" by (metis set_map)
  have "\<forall>k. map_of xs k = map_of ys' k"
  proof
    fix k
    show "map_of xs k = map_of ys' k"
    proof (cases "k = fst x")
      case True
      from nx have "map_of xs (fst x) = None" by (simp add: map_of_eq_None_iff)
      moreover from ny have "map_of ys' (fst x) = None" by (simp add: map_of_eq_None_iff)
      ultimately show ?thesis using True by simp
    next
      case False
      with Cons.prems(3) [rule_format, of k] ys xy show ?thesis by (cases y) auto
    qed
  qed
  from Cons.IH [OF keys dx this] xy ys show ?case by simp
qed

lemma foldl_set_keys_same:
  "fst ` set fs \<subseteq> fst ` set d \<Longrightarrow> map fst (foldl (\<lambda>d (k, v). dict_set d k [v]) d fs) = map fst d"
proof (induction fs arbitrary: d)
  case Nil
  then show ?case by simp
next
  case (Cons f fs)
  obtain k v where f: "f = (k, v)" by (cases f)
  from Cons.prems f have k: "k \<in> fst ` set d" and rest: "fst ` set fs \<subseteq> fst ` set d" by auto
  from k have same: "map fst (dict_set d k [v]) = map fst d" by (simp add: dict_set_keys)
  then have "fst ` set (dict_set d k [v]) = fst ` set d" by (metis set_map)
  with rest have "fst ` set fs \<subseteq> fst ` set (dict_set d k [v])" by simp
  from Cons.IH [OF this] same show ?case by (simp add: f)
qed

lemma merged_query_again:
  "foldl (\<lambda>d (k, v). dict_set d k [v]) (merged_query E qs fs) fs = merged_query E qs fs"
proof -
  let ?d = "merged_query E qs fs"
  let ?d2 = "foldl (\<lambda>d (k, v). dict_set d k [v]) ?d fs"
  have sub: "fst ` set fs \<subseteq> fst ` set ?d"
  proof
    fix k assume "k \<in> fst ` set fs"
    then obtain v where "dict_get fs k = Some v" using dict_get_None [of fs k] by auto
    then have "map_of ?d k = Some [v]" by (simp add: merged_query_lookup)
    then show "k \<in> fst ` set ?d" by (metis map_of_eq_None_iff option.distinct(1))
  qed
  have keys: "map fst ?d2 = map fst ?d" using sub by (rule foldl_set_keys_same)
  have dist: "distinct (map fst ?d2)" using keys merged_query_distinct [of E qs fs] by simp
  have "\<forall>n. map_of ?d2 n = map_of ?d n"
    by (simp add: foldl_set_map_of merged_query_lookup split: option.splits)
  from assoc_list_eq [OF keys dist this] show ?thesis .
qed

lemma merged_query_values:
  assumes "e \<in> set (merged_query E qs fs)"
  shows "snd e \<noteq> []"
proof -
  obtain k vs where e: "e = (k, vs)" by (cases e)
  with assms merged_query_distinct [of E qs fs] have "map_of (merged_query E qs fs) k = Some vs"
    by simp
  then show ?thesis by (auto simp: e merged_query_lookup split: option.splits if_splits)
qed

lemma dict_get_member: "dict_get fs k = Some v \<Longrightarrow> (k, v) \<in> set fs"
  by (auto simp: dict_get_def dest: map_of_SomeD)

lemma merged_query_pairs:
  assumes "(k, v) \<in> set (dict_pairs (merged_query E qs fs))"
  shows "(k, v) \<in> set (parse_qsl E qs) \<or> (k, v) \<in> set fs"
proof -
  from assms have m: "(k, v) \<in> set (filter (\<lambda>(k', v'). k' = k) (dict_pairs (merged_query E qs fs)))"
    by simp
  show ?thesis
  proof (cases "dict_get fs k")
    case None
    then have "k \<notin> fst ` set fs" by (simp add: dict_get_None)
    from merged_query_untouched [OF this, of E qs] m show ?thesis by simp
  next
    case (Some v')
    from merged_query_replaced [OF Some, of E qs] m have "v = v'" by simp
    with dict_get_member [OF Some] show ?thesis by simp
  qed
qed

text \<open>
  Claim C5, amended. Composing a FilterSet a second time gives the URL of the first
  composition when no filter value is empty, given of the libraries that the values
  \<open>parse_qsl\<close> reads from the query are not empty, that \<open>quote_plus\<close> and
  \<open>unquote_plus\<close> round-trip on the names and values involved (\<open>round_trip\<close>), and
  that \<open>urlparse\<close> reads the composed URL back into the components it was made of.
\<close>

theorem add_filters_idempotent:
  assumes "\<forall>kv\<in>set fs. snd kv \<noteq> []"
    and "\<forall>kv\<in>set (parse_qsl E (query (urlparse E base_url))). snd kv \<noteq> []"
    and "\<forall>kv\<in>set (parse_qsl E (query (urlparse E base_url)) @ fs).
           round_trip E (fst kv) \<and> round_trip E (snd kv)"
    and "urlparse E (add_filters E base_url fs)
           = (urlparse E base_url)
               \<lparr>query := urlencode E (merged_query E (query (urlparse E base_url)) fs)\<rparr>"
  shows "add_filters E (add_filters E base_url fs) fs = add_filters E base_url fs"
proof -
  let ?d = "merged_query E (query (urlparse E base_url)) fs"
  have pairs: "\<forall>kv\<in>set (dict_pairs ?d). round_trip E (fst kv) \<and> round_trip E (snd kv) \<and> snd kv \<noteq> []"
  proof
    fix kv assume kv: "kv \<in> set (dict_pairs ?d)"
    obtain k v where p: "kv = (k, v)" by (cases kv)
    from merged_query_pairs kv p
    have "kv \<in> set (parse_qsl E (query (urlparse E base_url))) \<or> kv \<in> set fs" by blast
    with assms(1-3) show "round_trip E (fst kv) \<and> round_trip E (snd kv) \<and> snd kv \<noteq> []"
      by auto
  qed
  have "\<forall>e\<in>set ?d. snd e \<noteq> []" using merged_query_values by blast
  from parse_qs_urlencode [OF merged_query_distinct this pairs]
  have rebuilt: "parse_qs E (urlencode E ?d) = ?d" .
  have again: "merged_query E (urlencode E ?d) fs = ?d"
  proof -
    have "merged_query E (urlencode E ?d) fs
        = foldl (\<lambda>d (k, v). dict_set d k [v]) (parse_qs E (urlencode E ?d)) fs"
      by (rule merged_query_def)
    also have "\<dots> = foldl (\<lambda>d (k, v). dict_set d k [v]) ?d fs"
      by (simp only: rebuilt)
    also have "\<dots> = ?d"
      by (rule merged_query_again)
    finally show ?thesis .
  qed
  have once: "add_filters E base_url fs = urlunparse E ((urlparse E base_url)\<lparr>query := urlencode E ?d\<rparr>)"
    by (simp add: add_filters_def Let_def)
  have "add_filters E (add_filters E base_url fs) fs
      = urlunparse E ((urlparse E base_url)\<lparr>query := urlencode E ?d\<rparr>)"
    by (simp add: add_filters_def [of E "add_filters E base_url fs"] Let_def assms(4) again)
  with once show ?thesis by simp
qed

subsection \<open>Composition on example URLs\<close>

lemmas eval_url = add_filters_def Let_def ascii_env_def ascii_urlparse_def ascii_urlunparse_def
  split_at_def merged_query_def parse_qs_def parse_qsl_def map_filter_def split_eq_def
  dict_append_def dict_set_def urlencode_def dict_pairs_def ascii_quote_plus_def unreserved_def
  ustr_def ascii_lower_def

lemma compose_ab:
  "add_filters ascii_env (ustr ''https://h/p?a=1&b=2'') [(ustr ''b'', ustr ''9'')]
     = ustr ''https://h/p?a=1&b=9''"
  by (simp add: eval_url)

lemma compose_blank:
  "add_filters ascii_env (ustr ''https://h/p?a=&b=2'') [(ustr ''b'', ustr ''9'')]
     = ustr ''https://h/p?b=9''"
  by (simp add: eval_url)

lemma compose_empty_once:
  "add_filters ascii_env (ustr ''https://h/p?k=5&a=1'') [(ustr ''k'', [])]
     = ustr ''https://h/p?k=&a=1''"
  by (simp add: eval_url)

lemma compose_empty_twice:
  "add_filters ascii_env (ustr ''https://h/p?k=&a=1'') [(ustr ''k'', [])]
     = ustr ''https://h/p?a=1&k=''"
  by (simp add: eval_url)

lemma query_ab:
  "query (urlparse ascii_env (ustr ''https://h/p?a=1&b=2'')) = ustr ''a=1&b=2''"
  "query (urlparse ascii_env (ustr ''https://h/p?a=&b=2'')) = ustr ''a=&b=2''"
  "query (urlparse ascii_env (ustr ''https://h/p?b=9'')) = ustr ''b=9''"
  by (simp_all add: eval_url)

lemma parse_ab:
  "parse_qsl ascii_env (ustr ''a=1&b=2'') = [(ustr ''a'', ustr ''1''), (ustr ''b'', ustr ''2'')]"
  "parse_qsl ascii_env (ustr ''a=&b=2'') = [(ustr ''b'', ustr ''2'')]"
  by (simp_all add: eval_url)


theorem filters_merge_query_witness:
  "query (urlparse ascii_env (ustr ''https://h/p?a=1&b=2'')) = ustr ''a=1&b=2''
   \<and> parse_qsl ascii_env (ustr ''a=1&b=2'') = [(ustr ''a'', ustr ''1''), (ustr ''b'', ustr ''2'')]
   \<and> dict_get [(ustr ''b'', ustr ''9'')] (ustr ''a'') = None
   \<and> filter (\<lambda>(k, v). k = ustr ''a'')
         (dict_pairs (merged_query ascii_env (ustr ''a=1&b=2'') [(ustr ''b'', ustr ''9'')]))
       = [(ustr ''a'', ustr ''1'')]
   \<and> filter (\<lambda>(k, v). k = ustr ''b'')
         (dict_pairs (merged_query ascii_env (ustr ''a=1&b=2'') [(ustr ''b'', ustr ''9'')]))
       = [(ustr ''b'', ustr ''9'')]
   \<and> add_filters ascii_env (ustr ''https://h/p?a=1&b=2'') [(ustr ''b'', ustr ''9'')]
       = ustr ''https://h/p?a=1&b=9''"
proof -
  let ?u = "ustr ''https://h/p?a=1&b=2''"
  let ?fs = "[(ustr ''b'', ustr ''9'')]"
  let ?d = "merged_query ascii_env (query (urlparse ascii_env ?u)) ?fs"
  note t = filters_merge_query [of ascii_env ?u ?fs]
  have ab: "ustr ''a'' \<noteq> ustr ''b''" by (simp add: ustr_def)
  then have na: "ustr ''a'' \<notin> fst ` set ?fs" by simp
  from ab have ga: "dict_get ?fs (ustr ''a'') = None" by (simp add: dict_get_def)
  have gb: "dict_get ?fs (ustr ''b'') = Some (ustr ''9'')" by (simp add: dict_get_def)
  from t na have "filter (\<lambda>(k, v). k = ustr ''a'') (dict_pairs ?d)
      = filter (\<lambda>(k, v). k = ustr ''a'') (parse_qsl ascii_env (query (urlparse ascii_env ?u)))"
    by blast
  with ab have 1: "filter (\<lambda>(k, v). k = ustr ''a'')
         (dict_pairs (merged_query ascii_env (ustr ''a=1&b=2'') ?fs)) = [(ustr ''a'', ustr ''1'')]"
    by (simp add: query_ab parse_ab)
  from t gb have "filter (\<lambda>(k, v). k = ustr ''b'') (dict_pairs ?d) = [(ustr ''b'', ustr ''9'')]"
    by blast
  then have 2: "filter (\<lambda>(k, v). k = ustr ''b'')
         (dict_pairs (merged_query ascii_env (ustr ''a=1&b=2'') ?fs)) = [(ustr ''b'', ustr ''9'')]"
    by (simp add: query_ab)
  from 1 2 ga query_ab(1) parse_ab(1) compose_ab show ?thesis by blast
qed

text \<open>
  Claim C3, as stated: every parameter of the URL whose name is not in the FilterSet is
  preserved. The URL below has the parameter \<open>a\<close>, with an empty value, and the
  FilterSet names \<open>b\<close> only; the composed URL has no parameter \<open>a\<close>.
\<close>

theorem blank_parameter_dropped:
  "query (urlparse ascii_env (ustr ''https://h/p?a=&b=2'')) = ustr ''a=&b=2''
   \<and> dict_get [(ustr ''b'', ustr ''9'')] (ustr ''a'') = None
   \<and> add_filters ascii_env (ustr ''https://h/p?a=&b=2'') [(ustr ''b'', ustr ''9'')]
       = ustr ''https://h/p?b=9''
   \<and> query (urlparse ascii_env (ustr ''https://h/p?b=9'')) = ustr ''b=9''"
proof -
  have "ustr ''a'' \<noteq> ustr ''b''" by (simp add: ustr_def)
  then have "dict_get [(ustr ''b'', ustr ''9'')] (ustr ''a'') = None" by (simp add: dict_get_def)
  with query_ab(2,3) compose_blank show ?thesis by blast
qed

text \<open>With \<open>ascii_env\<close> the values \<open>parse_qsl\<close> reads are never empty.\<close>

lemma ascii_unquote_plus_not_empty: "x \<noteq> [] \<Longrightarrow> ascii_unquote_plus x \<noteq> []"
  by (cases x rule: ascii_unquote_plus.cases) (auto split: option.splits)

lemma ascii_parsed_values_not_empty: "kv \<in> set (parse_qsl ascii_env qs) \<Longrightarrow> snd kv \<noteq> []"
  by (auto simp: parse_qsl_def map_filter_def ascii_env_def ascii_unquote_plus_not_empty
      split: option.splits if_splits)

theorem add_filters_idempotent_witness:
  "parse_qsl ascii_env (query (urlparse ascii_env (ustr ''https://h/p?a=1&b=2'')))
     = [(ustr ''a'', ustr ''1''), (ustr ''b'', ustr ''2'')]
   \<and> list_all (round_trip ascii_env) [ustr ''a'', ustr ''1'', ustr ''b'', ustr ''2'', ustr ''9'']
   \<and> add_filters ascii_env (ustr ''https://h/p?a=1&b=2'') [(ustr ''b'', ustr ''9'')]
       = ustr ''https://h/p?a=1&b=9''
   \<and> add_filters ascii_env (ustr ''https://h/p?a=1&b=9'') [(ustr ''b'', ustr ''9'')]
       = ustr ''https://h/p?a=1&b=9''"
proof -
  let ?u = "ustr ''https://h/p?a=1&b=2''"
  let ?fs = "[(ustr ''b'', ustr ''9'')]"
  have h1: "\<forall>kv\<in>set ?fs. snd kv \<noteq> []"
    by (simp add: ustr_def)
  have pq: "parse_qsl ascii_env (query (urlparse ascii_env ?u))
      = [(ustr ''a'', ustr ''1''), (ustr ''b'', ustr ''2'')]"
    by (simp add: query_ab parse_ab)
  have h2: "\<forall>kv\<in>set (parse_qsl ascii_env (query (urlparse ascii_env ?u))). snd kv \<noteq> []"
    unfolding pq by (simp add: ustr_def)
  have rt: "list_all (round_trip ascii_env) [ustr ''a'', ustr ''1'', ustr ''b'', ustr ''2'', ustr ''9'']"
    by (simp add: round_trip_def ascii_env_def ascii_quote_plus_def unreserved_def ustr_def)
  have h3: "\<forall>kv\<in>set (parse_qsl ascii_env (query (urlparse ascii_env ?u)) @ ?fs).
      round_trip ascii_env (fst kv) \<and> round_trip ascii_env (snd kv)"
    unfolding pq using rt by simp
  have h4: "urlparse ascii_env (add_filters ascii_env ?u ?fs)
      = (urlparse ascii_env ?u)
          \<lparr>query := urlencode ascii_env (merged_query ascii_env (query (urlparse ascii_env ?u)) ?fs)\<rparr>"
    by (simp add: eval_url)
  from add_filters_idempotent [OF h1 h2 h3 h4] compose_ab
  have "add_filters ascii_env (ustr ''https://h/p?a=1&b=9'') ?fs = ustr ''https://h/p?a=1&b=9''"
    by simp
  with pq rt compose_ab show ?thesis by blast
qed

text \<open>
  Claim C5, as stated: for every FilterSet. With the filter \<open>k\<close> set to the empty
  string, the first composition writes \<open>k=\<close> where \<open>k\<close> stood; the second reads that
  URL without \<open>k\<close>, whose value is blank, and adds \<open>k=\<close> at the end.
\<close>

theorem empty_filter_value_not_idempotent:
  "add_filters ascii_env (ustr ''https://h/p?k=5&a=1'') [(ustr ''k'', [])]
     = ustr ''https://h/p?k=&a=1''
   \<and> add_filters ascii_env
         (add_filters ascii_env (ustr ''https://h/p?k=5&a=1'') [(ustr ''k'', [])]) [(ustr ''k'', [])]
       = ustr ''https://h/p?a=1&k=''
   \<and> ustr ''https://h/p?a=1&k='' \<noteq> ustr ''https://h/p?k=&a=1''"
proof -
  have "ustr ''https://h/p?a=1&k='' \<noteq> ustr ''https://h/p?k=&a=1''"
    by (simp add: ustr_def)
  with compose_empty_once compose_empty_twice show ?thesis by simp
qed

section \<open>What the price pattern matches\<close>

text \<open>
  The equation of \<open>rx_match\<close> for a star unfolds into itself; it is applied by hand.
  What \<open>PRICE_REGEX\<close> finds in a text is a part of that text that ends with the euro
  sign, and so does that part stripped: a price is never empty and never the text
  \<open>N/A\<close>.
\<close>

declare rx_match.simps(5) [simp del]

lemma rx_match_suffix: "x \<in> set (rx_match r s) \<Longrightarrow> \<exists>pre. s = pre @ x"
proof (induction r s arbitrary: x rule: rx_match.induct)
  case (1 P s)
  then show ?case by (cases s) (auto split: if_splits)
next
  case (2 a b s)
  then obtain u where u: "u \<in> set (rx_match a s)" and x: "x \<in> set (rx_match b u)"
    by auto
  from "2.IH"(1) [OF u] obtain p1 where "s = p1 @ u" by blast
  moreover from "2.IH"(2) [OF u x] obtain p2 where "u = p2 @ x" by blast
  ultimately have "s = (p1 @ p2) @ x" by simp
  then show ?case by blast
next
  case (3 a b s)
  then show ?case by auto
next
  case (4 a s)
  then show ?case by auto
next
  case (5 a s)
  show ?case
  proof (cases "x = s")
    case True
    then show ?thesis by simp
  next
    case False
    from "5.prems" have "x \<in> set (concat (map (rx_match (Star a))
        (filter (\<lambda>r. length r < length s) (rx_match a s))) @ [s])"
      by (subst (asm) rx_match.simps(5)) simp
    with False obtain u where u: "u \<in> set (rx_match a s)" and l: "length u < length s"
      and x: "x \<in> set (rx_match (Star a) u)"
      by auto
    from "5.IH"(1) [OF u] obtain p1 where "s = p1 @ u" by blast
    moreover from "5.IH"(2) [of u x] u l x obtain p2 where "u = p2 @ x" by auto
    ultimately have "s = (p1 @ p2) @ x" by simp
    then show ?thesis by blast
  qed
qed

lemma rx_match_Seq_mem:
  "x \<in> set (rx_match (Seq a b) s) \<longleftrightarrow> (\<exists>u \<in> set (rx_match a s). x \<in> set (rx_match b u))"
  by simp

lemma rx_match_Seq_Chr:
  assumes "x \<in> set (rx_match (Seq a (Chr P)) s)"
  shows "\<exists>pre c. s = pre @ c # x \<and> P c"
proof -
  from assms obtain u where u: "u \<in> set (rx_match a s)" and x: "x \<in> set (rx_match (Chr P) u)"
    unfolding rx_match_Seq_mem by blast
  from x obtain c where c: "u = c # x" "P c"
    by (cases u) (auto split: if_splits)
  from rx_match_suffix [OF u] c show ?thesis by auto
qed

lemma price_match_ends_with_euro:
  assumes "x \<in> set (rx_match (PRICE_REGEX E) s)"
  shows "\<exists>pre. s = pre @ EURO # x"
proof -
  obtain number cents spaces where r: "PRICE_REGEX E = Seq number (Seq cents (Seq spaces (Chr (\<lambda>c. c = EURO))))"
    by (simp add: PRICE_REGEX_def Let_def)
  from assms obtain u1 u2
    where 1: "u1 \<in> set (rx_match number s)"
      and 2: "u2 \<in> set (rx_match cents u1)"
      and 3: "x \<in> set (rx_match (Seq spaces (Chr (\<lambda>c. c = EURO))) u2)"
    unfolding r rx_match_Seq_mem by blast
  from rx_match_Seq_Chr [OF 3] obtain p3 where "u2 = p3 @ EURO # x" by auto
  moreover from rx_match_suffix [OF 2] obtain p2 where "u1 = p2 @ u2" by blast
  moreover from rx_match_suffix [OF 1] obtain p1 where "s = p1 @ u1" by blast
  ultimately have "s = (p1 @ p2 @ p3) @ EURO # x" by simp
  then show ?thesis by blast
qed

lemma rx_search_Some:
  "rx_search r s = Some m \<Longrightarrow> \<exists>before rest. s = before @ m @ rest \<and> rest \<in> set (rx_match r (m @ rest))"
proof (induction r s rule: rx_search.induct)
  case (1 r)
  show ?case
  proof (cases "rx_match r []")
    case Nil
    with 1 show ?thesis by simp
  next
    case (Cons rest rs)
    then have "rest \<in> set (rx_match r [])" by simp
    from rx_match_suffix [OF this] have "rest = []" by simp
    with Cons 1 have "[] = [] @ m @ [] \<and> [] \<in> set (rx_match r (m @ []))" by simp
    then show ?thesis by blast
  qed
next
  case (2 r c t)
  show ?case
  proof (cases "rx_match r (c # t)")
    case Nil
    with "2.prems" have "rx_search r t = Some m" by simp
    from "2.IH" [OF Nil this] obtain before rest
      where "t = before @ m @ rest" "rest \<in> set (rx_match r (m @ rest))" by blast
    then have "c # t = (c # before) @ m @ rest \<and> rest \<in> set (rx_match r (m @ rest))" by simp
    then show ?thesis by blast
  next
    case (Cons rest rs)
    with "2.prems" have m: "m = take (length (c # t) - length rest) (c # t)" by simp
    have "rest \<in> set (rx_match r (c # t))" using Cons by simp
    from rx_match_suffix [OF this] obtain pre where pre: "c # t = pre @ rest" by blast
    then have "m = pre" using m by simp
    with pre Cons have "c # t = [] @ m @ rest \<and> rest \<in> set (rx_match r (m @ rest))" by simp
    then show ?thesis by blast
  qed
qed

lemma price_search_shape:
  assumes "rx_search (PRICE_REGEX E) s = Some m"
  shows "\<exists>pre. m = pre @ [EURO]"
proof -
  from rx_search_Some [OF assms] obtain before rest
    where "rest \<in> set (rx_match (PRICE_REGEX E) (m @ rest))" by blast
  from price_match_ends_with_euro [OF this] obtain pre where "m @ rest = pre @ EURO # rest" by blast
  then have "m = pre @ [EURO]" by simp
  then show ?thesis by blast
qed

lemma dropWhile_snoc_keep: "\<not> P y \<Longrightarrow> dropWhile P (xs @ [y]) = dropWhile P xs @ [y]"
  by (induction xs) auto

lemma EURO_not_space: "\<not> py_isspace EURO"
  by (simp add: py_isspace_def EURO_def)

lemma strip_snoc_euro: "strip (pre @ [EURO]) = dropWhile py_isspace pre @ [EURO]"
  by (simp add: strip_def dropWhile_snoc_keep EURO_not_space)


lemma price_of_shape:
  assumes "price_of E s = Some p"
  shows "EURO \<in> set p \<and> p \<noteq> [] \<and> p \<noteq> ustr ''N/A''"
proof -
  from assms obtain m where m: "rx_search (PRICE_REGEX E) s = Some m" and p: "p = strip m"
    by (auto simp: price_of_def)
  from price_search_shape [OF m] obtain pre where "m = pre @ [EURO]" by blast
  with p have "p = dropWhile py_isspace pre @ [EURO]" by (simp add: strip_snoc_euro)
  then have e: "EURO \<in> set p" by simp
  moreover have "EURO \<notin> set (ustr ''N/A'')" by (simp add: ustr_def EURO_def)
  ultimately show ?thesis by auto
qed


section \<open>The lowest-price extractor\<close>

subsection \<open>Nodes of a document\<close>

text \<open>
  Every container the extractors look into is a node of the document, so its strings
  are strings of the document.
\<close>

lemma first_where_Some: "first_where P xs = Some x \<Longrightarrow> x \<in> set xs \<and> P x"
  by (induction xs) (auto split: if_splits)

lemma first_where_None: "first_where P xs = None \<longleftrightarrow> (\<forall>x\<in>set xs. \<not> P x)"
  by (induction xs) auto

lemma first_where_split:
  "first_where P xs = Some x \<Longrightarrow> \<exists>pre post. xs = pre @ x # post \<and> (\<forall>y\<in>set pre. \<not> P y) \<and> P x"
proof (induction xs)
  case Nil
  then show ?case by simp
next
  case (Cons a xs)
  show ?case
  proof (cases "P a")
    case True
    with Cons.prems have "a # xs = [] @ x # xs \<and> (\<forall>y\<in>set []. \<not> P y) \<and> P x" by simp
    then show ?thesis by blast
  next
    case False
    with Cons obtain pre post where "xs = pre @ x # post" "\<forall>y\<in>set pre. \<not> P y" "P x" by auto
    with False have "a # xs = (a # pre) @ x # post \<and> (\<forall>y\<in>set (a # pre). \<not> P y) \<and> P x" by simp
    then show ?thesis by blast
  qed
qed









subsection \<open>The loop over the anchors and the scan\<close>

lemma container_prices_shape:
  "p \<in> set (container_prices E c) \<Longrightarrow> EURO \<in> set p \<and> p \<noteq> [] \<and> p \<noteq> ustr ''N/A''"
  by (auto simp: container_prices_def map_filter_def dest: price_of_shape)



lemma priceless_not_found:
  "find_string (\<lambda>t. contains anchor (casefold E t)) soup = None \<Longrightarrow> priceless E soup anchor"
  by (simp add: priceless_def anchor_container_def)

lemma lowest_by_anchors_None:
  "lowest_by_anchors E soup anchors = None \<longleftrightarrow> (\<forall>a\<in>set anchors. priceless E soup a)"
  by (induction anchors) (auto simp: priceless_def split: option.splits list.splits)

lemma lowest_by_anchors_first:
  assumes "\<forall>a\<in>set pre. priceless E soup a"
    and "anchor_container E soup a = Some c" and "container_prices E c = p # ps"
  shows "lowest_by_anchors E soup (pre @ a # post) = Some p"
  using assms by (induction pre) (auto simp: priceless_def split: option.splits list.splits)

lemma first_where_filter: "first_where Q (filter P xs) = first_where (\<lambda>x. P x \<and> Q x) xs"
  by (induction xs) auto

lemma first_price_eq:
  "first_price E ss =
     (case first_where (\<lambda>s. rx_search (PRICE_REGEX E) s \<noteq> None) ss of
        None \<Rightarrow> None
      | Some s \<Rightarrow> map_option strip (rx_search (PRICE_REGEX E) s))"
  by (induction ss) (auto split: option.splits)


subsection \<open>Documents without a price\<close>




subsection \<open>The pipeline\<close>

text \<open>
  What \<open>get_prices_for_query\<close> returns once the locator has found a product page and
  the two filtered pages are fetched, and the response the endpoint makes of it.
\<close>

lemma pipeline_result:
  assumes "find_product_url E q made = (Inr pu, made1)"
    and "http_get E made1 (add_filters E pu DEFAULT_FILTERS) = Inr r1"
    and "http_get E (made1 @ [add_filters E pu DEFAULT_FILTERS]) (add_filters E pu median_filters) = Inr r2"
    and "median_in (html_parser E (rtext r2)) = Inr m"
  shows "get_prices_for_query E q made
           = (Inr (or_NA (lowest_in E (html_parser E (rtext r1))), or_NA m,
                   add_filters E pu DEFAULT_FILTERS),
              made1 @ [add_filters E pu DEFAULT_FILTERS, add_filters E pu median_filters])"
  using assms
  by (simp add: get_prices_for_query_def sess_get_def Let_def extract_lowest_price_def
      extract_median_price_def)


lemma or_NA_not_empty: "or_NA x \<noteq> []"
  by (cases x) (simp_all add: or_NA_def ustr_def)

lemma lowest_in_fallback:
  assumes "\<forall>a\<in>set PRICE_TREND_ANCHORS. priceless E soup a"
  shows "lowest_in E soup
           = (case first_where (\<lambda>t. EURO \<in> set t \<and> rx_search (PRICE_REGEX E) t \<noteq> None)
                    (strings soup) of
                None \<Rightarrow> None
              | Some t \<Rightarrow> map_option strip (rx_search (PRICE_REGEX E) t))"
proof -
  from assms have "lowest_by_anchors E soup PRICE_TREND_ANCHORS = None"
    by (simp add: lowest_by_anchors_None)
  then show ?thesis
    by (simp add: lowest_in_def first_price_eq find_all_strings_def first_where_filter)
qed


text \<open>
  For every pair of pages the two prices returned are not empty: each is the text an
  extractor found or \<open>N/A\<close>.
\<close>

lemma pipeline_fields_not_empty:
  assumes "get_prices_for_query E q made = (Inr (lowest, median, u), made')"
  shows "lowest \<noteq> [] \<and> median \<noteq> []"
proof -
  from assms obtain x y where "lowest = or_NA x" "median = or_NA y"
    by (auto simp: get_prices_for_query_def Let_def split: prod.splits sum.splits)
  then show ?thesis by (simp add: or_NA_not_empty)
qed

text \<open>
  Claim C8, amended. When every anchor phrase is found in no string or has a container
  with no price, the lowest-price extractor scans the whole document: it takes the
  first string, in document order and of any class, that holds the euro sign and that
  \<open>PRICE_REGEX\<close> matches, and returns the part of that string the pattern matched,
  stripped, not the string itself. In the result of the pipeline the lowest price is
  \<open>N/A\<close> when there is no such string and only then.
\<close>

theorem fallback_document_scan:
  assumes "find_product_url E q made = (Inr product_url, made1)"
    and "http_get E made1 (add_filters E product_url DEFAULT_FILTERS) = Inr r_lowest"
    and "http_get E (made1 @ [add_filters E product_url DEFAULT_FILTERS])
           (add_filters E product_url median_filters) = Inr r_median"
    and "\<forall>a\<in>set PRICE_TREND_ANCHORS. priceless E (html_parser E (rtext r_lowest)) a"
  shows "extract_lowest_price E (rtext r_lowest)
           = (case first_where (\<lambda>t. EURO \<in> set t \<and> rx_search (PRICE_REGEX E) t \<noteq> None)
                    (strings (html_parser E (rtext r_lowest))) of
                None \<Rightarrow> None
              | Some t \<Rightarrow> map_option strip (rx_search (PRICE_REGEX E) t))
       \<and> (\<exists>lowest median made'.
             get_prices_for_query E q made
               = (Inr (lowest, median, add_filters E product_url DEFAULT_FILTERS), made')
           \<and> (case first_where (\<lambda>t. EURO \<in> set t \<and> rx_search (PRICE_REGEX E) t \<noteq> None)
                     (strings (html_parser E (rtext r_lowest))) of
                 None \<Rightarrow> lowest = ustr ''N/A''
               | Some t \<Rightarrow> lowest \<noteq> ustr ''N/A''
                          \<and> (\<exists>m. rx_search (PRICE_REGEX E) t = Some m \<and> lowest = strip m)))"
proof -
  let ?soup = "html_parser E (rtext r_lowest)"
  let ?hit = "\<lambda>t. EURO \<in> set t \<and> rx_search (PRICE_REGEX E) t \<noteq> None"
  let ?lowest = "or_NA (lowest_in E ?soup)"
  obtain m where m: "median_in (html_parser E (rtext r_median)) = Inr m"
    using median_in_never_raises by blast
  note p = pipeline_result [OF assms(1-3) m]
  note eq = lowest_in_fallback [OF assms(4)]
  have c: "case first_where ?hit (strings ?soup) of
             None \<Rightarrow> ?lowest = ustr ''N/A''
           | Some t \<Rightarrow> ?lowest \<noteq> ustr ''N/A''
                      \<and> (\<exists>m. rx_search (PRICE_REGEX E) t = Some m \<and> ?lowest = strip m)"
  proof (cases "first_where ?hit (strings ?soup)")
    case None
    with eq show ?thesis by (simp add: or_NA_def)
  next
    case (Some t)
    from first_where_Some [OF Some] obtain mt where mt: "rx_search (PRICE_REGEX E) t = Some mt"
      by auto
    then have "price_of E t = Some (strip mt)" by (simp add: price_of_def)
    from price_of_shape [OF this] have "strip mt \<noteq> [] \<and> strip mt \<noteq> ustr ''N/A''" by simp
    with Some eq mt show ?thesis by (simp add: or_NA_def)
  qed
  have e: "extract_lowest_price E (rtext r_lowest)
           = (case first_where ?hit (strings ?soup) of
                None \<Rightarrow> None
              | Some t \<Rightarrow> map_option strip (rx_search (PRICE_REGEX E) t))"
    using eq by (simp add: extract_lowest_price_def)
  from p c have "\<exists>lowest median made'.
      get_prices_for_query E q made
        = (Inr (lowest, median, add_filters E product_url DEFAULT_FILTERS), made')
      \<and> (case first_where ?hit (strings ?soup) of
            None \<Rightarrow> lowest = ustr ''N/A''
          | Some t \<Rightarrow> lowest \<noteq> ustr ''N/A''
                     \<and> (\<exists>m. rx_search (PRICE_REGEX E) t = Some m \<and> lowest = strip m))"
    by blast
  with e show ?thesis by blast
qed

text \<open>
  Claim C6, amended. The anchor phrases are tried in the order of
  \<open>PRICE_TREND_ANCHORS\<close>, and the first entry whose container holds a price wins: when
  every earlier entry is not found or has a container without a price, the result is
  the first price of the container of that entry, and of no other container.
\<close>

theorem first_priced_anchor_wins:
  assumes "i < length PRICE_TREND_ANCHORS"
    and "\<forall>j<i. priceless E (html_parser E html) (PRICE_TREND_ANCHORS ! j)"
    and "anchor_container E (html_parser E html) (PRICE_TREND_ANCHORS ! i) = Some c"
    and "container_prices E c = p # ps"
  shows "extract_lowest_price E html = Some p"
proof -
  have split: "PRICE_TREND_ANCHORS
      = take i PRICE_TREND_ANCHORS @ PRICE_TREND_ANCHORS ! i # drop (Suc i) PRICE_TREND_ANCHORS"
    using assms(1) by (simp add: id_take_nth_drop)
  have "\<forall>a\<in>set (take i PRICE_TREND_ANCHORS). priceless E (html_parser E html) a"
    using assms(1,2) by (auto simp: in_set_conv_nth)
  from lowest_by_anchors_first [OF this assms(3,4)]
  have "lowest_by_anchors E (html_parser E html)
          (take i PRICE_TREND_ANCHORS @ PRICE_TREND_ANCHORS ! i # drop (Suc i) PRICE_TREND_ANCHORS) = Some p" .
  with split have "lowest_by_anchors E (html_parser E html) PRICE_TREND_ANCHORS = Some p"
    by simp
  then show ?thesis by (simp add: extract_lowest_price_def lowest_in_def)
qed

subsection \<open>The extractor on the example pages\<close>

lemmas eval_text = ustr_def EURO_def py_isspace_def ascii_lower_def ascii_digit_def strip_def

lemma page_env_simps:
  "html_parser (page_env page) html = page"
  "casefold (page_env page) = map ascii_lower"
  "is_digit (page_env page) = ascii_digit"
  "http_get (page_env page) made u = Inr \<lparr>url = product_url_example, status_code = 200, rtext = []\<rparr>"
  by (simp_all add: page_env_def ascii_env_def)

lemma product_url_example_matches: "contains PRODUCT_PATH product_url_example"
  by (simp add: PRODUCT_PATH_def product_url_example_def ustr_def)

lemma locate_Charizard:
  "find_product_url (page_env page) (JStr (ustr ''Charizard'')) []
     = (Inr product_url_example, [SEARCH_BASE @ ustr ''Charizard''])"
  using product_url_example_matches
  by (simp add: find_product_url_def py_quote_plus_def sess_get_def page_env_def ascii_env_def
      quote_Charizard)


lemma search_5: "rx_search (PRICE_REGEX (page_env pg)) (ustr ''Livraison 5,00 '' @ [EURO])
    = Some (ustr ''5,00 '' @ [EURO])"
  by (simp add: PRICE_REGEX_def Let_def page_env_simps rx_match.simps(5) eval_text)

lemma search_3: "rx_search (PRICE_REGEX (page_env pg)) (ustr ''Price trend 3,00 '' @ [EURO])
    = Some (ustr ''3,00 '' @ [EURO])"
  by (simp add: PRICE_REGEX_def Let_def page_env_simps rx_match.simps(5) eval_text)

lemma search_2: "rx_search (PRICE_REGEX (page_env pg)) (ustr ''Tendance des prix 2,00 '' @ [EURO])
    = Some (ustr ''2,00 '' @ [EURO])"
  by (simp add: PRICE_REGEX_def Let_def page_env_simps rx_match.simps(5) eval_text)

lemma search_9: "rx_search (PRICE_REGEX (page_env pg)) (ustr ''9,00 '' @ [EURO])
    = Some (ustr ''9,00 '' @ [EURO])"
  by (simp add: PRICE_REGEX_def Let_def page_env_simps rx_match.simps(5) eval_text)

lemma strip_prices:
  "strip (ustr ''5,00 '' @ [EURO]) = ustr ''5,00 '' @ [EURO]"
  "strip (ustr ''9,00 '' @ [EURO]) = ustr ''9,00 '' @ [EURO]"
  by (simp_all add: eval_text)

lemma anchors_shipping:
  "\<forall>a\<in>set PRICE_TREND_ANCHORS.
     find_string (\<lambda>t. contains a (casefold (page_env shipping_page) t)) shipping_page = None"
  by (simp add: PRICE_TREND_ANCHORS_def find_string_def shipping_page_def page_env_simps eval_text)

lemmas eval_page = find_string_def find_all_strings_def stripped_strings_def get_text_def
  all_strings_def string_containers_def
  anchor_container_def container_prices_def price_of_def map_filter_def

lemma container_trend_fr:
  "anchor_container (page_env two_trends_page) two_trends_page (ustr ''tendance des prix'') = Some trend_fr"
  by (simp add: eval_page two_trends_page_def trend_fr_def trend_en_def PRICE_TREND_ANCHORS_def
      page_env_simps eval_text)

lemma container_trend_en:
  "anchor_container (page_env two_trends_page) two_trends_page (ustr ''price trend'') = Some trend_en"
  by (simp add: eval_page two_trends_page_def trend_fr_def trend_en_def PRICE_TREND_ANCHORS_def
      page_env_simps eval_text)

lemma prices_trend_fr: "container_prices (page_env pg) trend_fr = []"
  by (simp add: eval_page trend_fr_def eval_text)

lemma prices_trend_en: "container_prices (page_env pg) trend_en = [ustr ''3,00 '' @ [EURO]]"
  using search_3 [of pg]
  by (simp add: eval_page trend_en_def) (simp add: eval_text)

lemma anchors_nth:
  "PRICE_TREND_ANCHORS ! 0 = ustr ''tendance des prix''"
  "PRICE_TREND_ANCHORS ! 1 = ustr ''prix moyen''"
  "PRICE_TREND_ANCHORS ! 3 = ustr ''price trend''"
  "3 < length PRICE_TREND_ANCHORS"
  by (simp_all add: PRICE_TREND_ANCHORS_def)

lemma anchors_split_en:
  "PRICE_TREND_ANCHORS
     = [ustr ''tendance des prix'', ustr ''prix moyen'', ustr ''articles disponibles'']
       @ ustr ''price trend'' # drop 4 PRICE_TREND_ANCHORS"
  by (simp add: PRICE_TREND_ANCHORS_def)

lemma other_fr_anchors_absent:
  "find_string (\<lambda>t. contains (ustr ''prix moyen'') (casefold (page_env two_trends_page) t)) two_trends_page = None"
  "find_string (\<lambda>t. contains (ustr ''articles disponibles'') (casefold (page_env two_trends_page) t)) two_trends_page = None"
  by (simp_all add: find_string_def two_trends_page_def trend_fr_def trend_en_def page_env_simps eval_text)

text \<open>
  Claim C6, as stated: in a document that holds both \<open>tendance des prix\<close> and
  \<open>price trend\<close>, the container is that of the first anchor found. On
  \<open>two_trends_page\<close> the first entry of the list is found, its container holds no
  price, and the result is the price of the container of \<open>price trend\<close>, the fourth
  entry.
\<close>

theorem later_anchor_resolves:
  "PRICE_TREND_ANCHORS ! 0 = ustr ''tendance des prix''
   \<and> PRICE_TREND_ANCHORS ! 3 = ustr ''price trend''
   \<and> anchor_container (page_env two_trends_page) (html_parser (page_env two_trends_page) [])
        (ustr ''tendance des prix'') = Some trend_fr
   \<and> container_prices (page_env two_trends_page) trend_fr = []
   \<and> anchor_container (page_env two_trends_page) (html_parser (page_env two_trends_page) [])
        (ustr ''price trend'') = Some trend_en
   \<and> container_prices (page_env two_trends_page) trend_en = [ustr ''3,00 '' @ [EURO]]
   \<and> extract_lowest_price (page_env two_trends_page) [] = Some (ustr ''3,00 '' @ [EURO])"
proof -
  let ?E = "page_env two_trends_page"
  have p0: "priceless ?E two_trends_page (ustr ''tendance des prix'')"
    by (simp add: priceless_def container_trend_fr prices_trend_fr)
  have p1: "priceless ?E two_trends_page (ustr ''prix moyen'')"
    by (rule priceless_not_found) (rule other_fr_anchors_absent)
  have p2: "priceless ?E two_trends_page (ustr ''articles disponibles'')"
    by (rule priceless_not_found) (rule other_fr_anchors_absent)
  have pre: "\<forall>a\<in>set [ustr ''tendance des prix'', ustr ''prix moyen'', ustr ''articles disponibles''].
      priceless ?E two_trends_page a"
    using p0 p1 p2 by simp
  have "lowest_by_anchors ?E two_trends_page PRICE_TREND_ANCHORS = Some (ustr ''3,00 '' @ [EURO])"
    by (subst anchors_split_en)
      (rule lowest_by_anchors_first [OF pre container_trend_en prices_trend_en])
  then have r: "extract_lowest_price ?E [] = Some (ustr ''3,00 '' @ [EURO])"
    by (simp add: extract_lowest_price_def lowest_in_def page_env_simps)
  show ?thesis
    using anchors_nth container_trend_fr container_trend_en prices_trend_fr [of two_trends_page]
      prices_trend_en [of two_trends_page] r
    by (simp add: page_env_simps)
qed

lemma container_trend_fr_priced:
  "anchor_container (page_env two_prices_page) two_prices_page (ustr ''tendance des prix'')
     = Some trend_fr_priced"
  by (simp add: eval_page two_prices_page_def trend_fr_priced_def trend_en_def PRICE_TREND_ANCHORS_def
      page_env_simps eval_text)

lemma prices_trend_fr_priced:
  "container_prices (page_env pg) trend_fr_priced = [ustr ''2,00 '' @ [EURO]]"
  using search_2 [of pg]
  by (simp add: eval_page trend_fr_priced_def) (simp add: eval_text)

text \<open>
  An anchor phrase in a comment. The comment is found by the search, and it is in the
  text of no element: the paragraph around it has no text, and the container is the
  \<open>div\<close>, whose text holds \<open>price trend\<close>.
\<close>

lemma first_anchor_absent_comment_page:
  "find_string (\<lambda>t. contains (ustr ''tendance des prix'') (casefold (page_env comment_page) t))
     comment_page = None"
  by (simp add: find_string_def comment_page_def comment_div_def trend_en_def page_env_simps eval_text)

lemma container_comment:
  "anchor_container (page_env comment_page) comment_page (ustr ''prix moyen'') = Some comment_div"
  by (simp add: eval_page comment_page_def comment_div_def trend_en_def PRICE_TREND_ANCHORS_def
      page_env_simps eval_text)

lemma prices_comment_div:
  "container_prices (page_env pg) comment_div = [ustr ''9,00 '' @ [EURO], ustr ''3,00 '' @ [EURO]]"
  using search_3 [of pg] search_9 [of pg]
  by (simp add: eval_page comment_div_def trend_en_def) (simp add: eval_text)

theorem first_priced_anchor_wins_witness:
  "anchor_container (page_env two_prices_page) (html_parser (page_env two_prices_page) [])
        (PRICE_TREND_ANCHORS ! 0) = Some trend_fr_priced
   \<and> container_prices (page_env two_prices_page) trend_fr_priced = [ustr ''2,00 '' @ [EURO]]
   \<and> container_prices (page_env two_prices_page) trend_en = [ustr ''3,00 '' @ [EURO]]
   \<and> extract_lowest_price (page_env two_prices_page) [] = Some (ustr ''2,00 '' @ [EURO])
   \<and> priceless (page_env comment_page) (html_parser (page_env comment_page) []) (PRICE_TREND_ANCHORS ! 0)
   \<and> PRICE_TREND_ANCHORS ! 1 = ustr ''prix moyen''
   \<and> anchor_container (page_env comment_page) (html_parser (page_env comment_page) [])
        (PRICE_TREND_ANCHORS ! 1) = Some comment_div
   \<and> container_prices (page_env comment_page) comment_div
        = [ustr ''9,00 '' @ [EURO], ustr ''3,00 '' @ [EURO]]
   \<and> extract_lowest_price (page_env comment_page) [] = Some (ustr ''9,00 '' @ [EURO])"
proof -
  let ?E = "page_env two_prices_page"
  let ?C = "page_env comment_page"
  have i: "0 < length PRICE_TREND_ANCHORS" by (simp add: PRICE_TREND_ANCHORS_def)
  have n: "\<forall>j<0. priceless ?E (html_parser ?E []) (PRICE_TREND_ANCHORS ! j)" by simp
  have c: "anchor_container ?E (html_parser ?E []) (PRICE_TREND_ANCHORS ! 0) = Some trend_fr_priced"
    using container_trend_fr_priced by (simp add: anchors_nth page_env_simps)
  have p: "container_prices ?E trend_fr_priced = (ustr ''2,00 '' @ [EURO]) # []"
    by (rule prices_trend_fr_priced)
  note first = first_priced_anchor_wins [OF i n c p]
  have i1: "1 < length PRICE_TREND_ANCHORS" by (simp add: PRICE_TREND_ANCHORS_def)
  have p0: "priceless ?C (html_parser ?C []) (PRICE_TREND_ANCHORS ! 0)"
    using priceless_not_found [OF first_anchor_absent_comment_page]
    by (simp add: anchors_nth page_env_simps)
  then have n1: "\<forall>j<1. priceless ?C (html_parser ?C []) (PRICE_TREND_ANCHORS ! j)" by simp
  have c1: "anchor_container ?C (html_parser ?C []) (PRICE_TREND_ANCHORS ! 1) = Some comment_div"
    unfolding anchors_nth page_env_simps by (rule container_comment)
  have p1: "container_prices ?C comment_div = (ustr ''9,00 '' @ [EURO]) # [ustr ''3,00 '' @ [EURO]]"
    by (rule prices_comment_div)
  note second = first_priced_anchor_wins [OF i1 n1 c1 p1]
  from first second c p prices_trend_en [of two_prices_page] p0 anchors_nth(2) c1 p1
  show ?thesis by blast
qed

text \<open>
  When no ancestor of such a comment holds an anchor phrase in its text, the container
  is the parent of the comment.
\<close>

lemma container_comment_parent:
  "anchor_container (page_env comment_parent_page) comment_parent_page (ustr ''tendance des prix'')
     = Some comment_parent"
  by (simp add: eval_page comment_parent_page_def comment_parent_def PRICE_TREND_ANCHORS_def
      page_env_simps eval_text)

lemma prices_comment_parent:
  "container_prices (page_env pg) comment_parent = [ustr ''9,00 '' @ [EURO]]"
  using search_9 [of pg]
  by (simp add: eval_page comment_parent_def) (simp add: eval_text)

lemma comment_anchor_parent_price:
  "strings comment_parent_page
     = [ustr ''Livraison 5,00 '' @ [EURO], ustr '' tendance des prix '', ustr ''9,00 '' @ [EURO]]
   \<and> extract_lowest_price (page_env comment_parent_page) [] = Some (ustr ''9,00 '' @ [EURO])"
proof -
  let ?E = "page_env comment_parent_page"
  have pre: "\<forall>a\<in>set []. priceless ?E comment_parent_page a" by simp
  have split: "PRICE_TREND_ANCHORS = [] @ ustr ''tendance des prix'' # drop 1 PRICE_TREND_ANCHORS"
    by (simp add: PRICE_TREND_ANCHORS_def)
  have "lowest_by_anchors ?E comment_parent_page PRICE_TREND_ANCHORS
      = Some (ustr ''9,00 '' @ [EURO])"
    by (subst split)
      (rule lowest_by_anchors_first [OF pre container_comment_parent prices_comment_parent])
  then have "extract_lowest_price ?E [] = Some (ustr ''9,00 '' @ [EURO])"
    by (simp add: extract_lowest_price_def lowest_in_def page_env_simps)
  moreover have "strings comment_parent_page
     = [ustr ''Livraison 5,00 '' @ [EURO], ustr '' tendance des prix '', ustr ''9,00 '' @ [EURO]]"
    by (simp add: comment_parent_page_def comment_parent_def)
  ultimately show ?thesis by simp
qed

subsection \<open>The pipeline on the example pages\<close>




text \<open>
  Claim C8, as stated: the scan returns the first text fragment that holds the euro
  sign and matches the pattern. On \<open>shipping_page\<close> no anchor phrase is found, that
  fragment is \<open>Livraison 5,00\<close> with the euro sign, and the extractor returns the part
  \<open>5,00\<close> with the euro sign, which the pipeline reports as the lowest price.
\<close>

theorem fragment_not_returned:
  "list_all (\<lambda>a. find_string (\<lambda>t. contains a (casefold (page_env shipping_page) t))
                   (html_parser (page_env shipping_page) []) = None) PRICE_TREND_ANCHORS
   \<and> strings (html_parser (page_env shipping_page) []) = [ustr ''Livraison 5,00 '' @ [EURO]]
   \<and> extract_lowest_price (page_env shipping_page) [] = Some (ustr ''5,00 '' @ [EURO])
   \<and> ustr ''5,00 '' @ [EURO] \<noteq> ustr ''Livraison 5,00 '' @ [EURO]
   \<and> get_prices_for_query (page_env shipping_page) (JStr (ustr ''Charizard'')) []
       = (Inr (ustr ''5,00 '' @ [EURO], ustr ''N/A'',
               add_filters (page_env shipping_page) product_url_example DEFAULT_FILTERS),
          [SEARCH_BASE @ ustr ''Charizard'',
           add_filters (page_env shipping_page) product_url_example DEFAULT_FILTERS,
           add_filters (page_env shipping_page) product_url_example median_filters])"
proof -
  let ?E = "page_env shipping_page"
  let ?r = "\<lparr>url = product_url_example, status_code = 200, rtext = []\<rparr>"
  have a: "\<forall>a\<in>set PRICE_TREND_ANCHORS.
      find_string (\<lambda>t. contains a (casefold ?E t)) (html_parser ?E []) = None"
    using anchors_shipping by (simp add: page_env_simps)
  then have pl: "\<forall>a\<in>set PRICE_TREND_ANCHORS. priceless ?E shipping_page a"
    using priceless_not_found [of _ ?E shipping_page] by (simp add: page_env_simps)
  have s: "strings shipping_page = [ustr ''Livraison 5,00 '' @ [EURO]]"
    by (simp add: shipping_page_def)
  have eu: "EURO \<in> set (ustr ''Livraison 5,00 '' @ [EURO])" by simp
  have lo: "lowest_in ?E shipping_page = Some (ustr ''5,00 '' @ [EURO])"
    using lowest_in_fallback [OF pl] s search_5 [of shipping_page] strip_prices eu by simp
  have me: "median_in (html_parser ?E (rtext ?r)) = Inr None"
    by (simp add: page_env_simps median_in_def offer_rows_def shipping_page_def has_class_def
        ustr_def)
  have g1: "http_get ?E [SEARCH_BASE @ ustr ''Charizard'']
              (add_filters ?E product_url_example DEFAULT_FILTERS) = Inr ?r"
    by (rule page_env_simps)
  have g2: "http_get ?E ([SEARCH_BASE @ ustr ''Charizard'']
                          @ [add_filters ?E product_url_example DEFAULT_FILTERS])
              (add_filters ?E product_url_example median_filters) = Inr ?r"
    by (rule page_env_simps)
  have ne5: "ustr ''5,00 '' @ [EURO] \<noteq> []" by simp
  have p: "get_prices_for_query ?E (JStr (ustr ''Charizard'')) []
       = (Inr (ustr ''5,00 '' @ [EURO], ustr ''N/A'',
               add_filters ?E product_url_example DEFAULT_FILTERS),
          [SEARCH_BASE @ ustr ''Charizard'',
           add_filters ?E product_url_example DEFAULT_FILTERS,
           add_filters ?E product_url_example median_filters])"
    using pipeline_result [OF locate_Charizard g1 g2 me] lo ne5
    by (simp add: page_env_simps or_NA_def)
  have d: "ustr ''5,00 '' @ [EURO] \<noteq> ustr ''Livraison 5,00 '' @ [EURO]"
    by (simp add: ustr_def)
  have x: "extract_lowest_price ?E [] = Some (ustr ''5,00 '' @ [EURO])"
    using lo by (simp add: extract_lowest_price_def page_env_simps)
  from a s x d p show ?thesis
    by (simp add: list_all_iff page_env_simps)
qed

lemma priceless_fallback_page:
  "list_all (priceless (page_env fallback_page) fallback_page) PRICE_TREND_ANCHORS"
  by (simp add: priceless_def eval_page fallback_page_def trend_fr_def PRICE_TREND_ANCHORS_def
      page_env_simps eval_text)

lemma container_fallback_page:
  "anchor_container (page_env fallback_page) fallback_page (ustr ''tendance des prix'') = Some trend_fr"
  by (simp add: eval_page fallback_page_def trend_fr_def PRICE_TREND_ANCHORS_def
      page_env_simps eval_text)

theorem fallback_document_scan_witness:
  "anchor_container (page_env fallback_page) (html_parser (page_env fallback_page) [])
      (ustr ''tendance des prix'') = Some trend_fr
   \<and> container_prices (page_env fallback_page) trend_fr = []
   \<and> list_all (priceless (page_env fallback_page) (html_parser (page_env fallback_page) []))
       PRICE_TREND_ANCHORS
   \<and> strings (html_parser (page_env fallback_page) [])
       = [ustr ''Tendance des prix'', ustr ''9,00 '' @ [EURO]]
   \<and> extract_lowest_price (page_env fallback_page) [] = Some (ustr ''9,00 '' @ [EURO])
   \<and> (\<exists>median made'.
         get_prices_for_query (page_env fallback_page) (JStr (ustr ''Charizard'')) []
           = (Inr (ustr ''9,00 '' @ [EURO], median,
                   add_filters (page_env fallback_page) product_url_example DEFAULT_FILTERS), made'))"
proof -
  let ?E = "page_env fallback_page"
  let ?r = "\<lparr>url = product_url_example, status_code = 200, rtext = []\<rparr>"
  let ?hit = "\<lambda>t. EURO \<in> set t \<and> rx_search (PRICE_REGEX ?E) t \<noteq> None"
  have c: "anchor_container ?E (html_parser ?E []) (ustr ''tendance des prix'') = Some trend_fr"
    using container_fallback_page by (simp add: page_env_simps)
  have pl: "list_all (priceless ?E (html_parser ?E [])) PRICE_TREND_ANCHORS"
    using priceless_fallback_page by (simp add: page_env_simps)
  then have h: "\<forall>a\<in>set PRICE_TREND_ANCHORS. priceless ?E (html_parser ?E (rtext ?r)) a"
    by (simp add: list_all_iff page_env_simps)
  have s: "strings (html_parser ?E []) = [ustr ''Tendance des prix'', ustr ''9,00 '' @ [EURO]]"
    by (simp add: page_env_simps fallback_page_def trend_fr_def)
  have n: "EURO \<notin> set (ustr ''Tendance des prix'')"
    by (simp add: eval_text)
  have f: "first_where ?hit (strings (html_parser ?E (rtext ?r))) = Some (ustr ''9,00 '' @ [EURO])"
    using s n search_9 [of fallback_page] by (simp add: page_env_simps)
  have g1: "http_get ?E [SEARCH_BASE @ ustr ''Charizard'']
              (add_filters ?E product_url_example DEFAULT_FILTERS) = Inr ?r"
    by (rule page_env_simps)
  have g2: "http_get ?E ([SEARCH_BASE @ ustr ''Charizard'']
                          @ [add_filters ?E product_url_example DEFAULT_FILTERS])
              (add_filters ?E product_url_example median_filters) = Inr ?r"
    by (rule page_env_simps)
  note t = fallback_document_scan [OF locate_Charizard g1 g2 h]
  from t f search_9 [of fallback_page] strip_prices
  have x: "extract_lowest_price ?E [] = Some (ustr ''9,00 '' @ [EURO])"
    by simp
  from t f search_9 [of fallback_page] strip_prices
  have p: "\<exists>median made'.
         get_prices_for_query ?E (JStr (ustr ''Charizard'')) []
           = (Inr (ustr ''9,00 '' @ [EURO], median,
                   add_filters ?E product_url_example DEFAULT_FILTERS), made')"
    by auto
  from c prices_trend_fr [of fallback_page] pl s x p show ?thesis by blast
qed

end
